theory Spec2Isabelle
  imports Complex_Main "HOL-Library.Product_Lexorder" "HOL-Library.Multiset"
begin

section \<open>Python values\<close>

text \<open>
  A Python \<open>str\<close> is a sequence of Unicode code points; it is modelled as the list of
  these code points. The string literals of the worker's source files are given by the
  code points that stand in the files.
\<close>

type_synonym ustr = "nat list"

definition asc :: "string \<Rightarrow> ustr" where
  "asc s = map of_char s"


text \<open>\<open>needle in hay\<close> on strings: \<open>needle\<close> occurs as a contiguous run.\<close>

fun py_in :: "ustr \<Rightarrow> ustr \<Rightarrow> bool" where
  "py_in needle [] = (needle = [])"
| "py_in needle (c # cs) = (take (length needle) (c # cs) = needle \<or> py_in needle cs)"

text \<open>
  \<open>str.isspace\<close> of one code point, and \<open>str.strip()\<close>.
\<close>

definition is_space :: "nat \<Rightarrow> bool" where
  "is_space c \<longleftrightarrow>
     (9 \<le> c \<and> c \<le> 13) \<or> (28 \<le> c \<and> c \<le> 32) \<or> c = 0x85 \<or> c = 0xA0 \<or> c = 0x1680
     \<or> (0x2000 \<le> c \<and> c \<le> 0x200A) \<or> c = 0x2028 \<or> c = 0x2029 \<or> c = 0x202F
     \<or> c = 0x205F \<or> c = 0x3000"

definition py_strip :: "ustr \<Rightarrow> ustr" where
  "py_strip s = rev (dropWhile is_space (rev (dropWhile is_space s)))"

text \<open>
  \<open>str.lower()\<close>. The case mappings and the properties \<open>Cased\<close> and \<open>Case_Ignorable\<close>
  are those of Unicode 14.0.0, the character database of CPython 3.11. A run
  \<open>(lo, hi, step, d)\<close> of \<open>LOWER_RUNS\<close> says that the code points \<open>lo, lo + step, \<dots>, hi\<close>
  have their lowercase at the distance \<open>d\<close>; the runs hold the code points from 128 on
  whose lowercase is one code point other than themselves. The runs of \<open>CASED_RUNS\<close> and
  \<open>CASE_IGNORABLE_RUNS\<close> hold the code points with the property.
\<close>

definition LOWER_RUNS :: "(nat \<times> nat \<times> nat \<times> int) list" where
  "LOWER_RUNS =
     [(0xC0, 0xD6, 1, 32), (0xD8, 0xDE, 1, 32), (0x100, 0x12E, 2, 1), (0x132, 0x136, 2, 1),
      (0x139, 0x147, 2, 1), (0x14A, 0x176, 2, 1), (0x178, 0x178, 1, - 121),
      (0x179, 0x17D, 2, 1), (0x181, 0x181, 1, 210), (0x182, 0x184, 2, 1),
      (0x186, 0x186, 1, 206), (0x187, 0x187, 1, 1), (0x189, 0x18A, 1, 205),
      (0x18B, 0x18B, 1, 1), (0x18E, 0x18E, 1, 79), (0x18F, 0x18F, 1, 202),
      (0x190, 0x190, 1, 203), (0x191, 0x191, 1, 1), (0x193, 0x193, 1, 205),
      (0x194, 0x194, 1, 207), (0x196, 0x196, 1, 211), (0x197, 0x197, 1, 209),
      (0x198, 0x198, 1, 1), (0x19C, 0x19C, 1, 211), (0x19D, 0x19D, 1, 213),
      (0x19F, 0x19F, 1, 214), (0x1A0, 0x1A4, 2, 1), (0x1A6, 0x1A6, 1, 218),
      (0x1A7, 0x1A7, 1, 1), (0x1A9, 0x1A9, 1, 218), (0x1AC, 0x1AC, 1, 1),
      (0x1AE, 0x1AE, 1, 218), (0x1AF, 0x1AF, 1, 1), (0x1B1, 0x1B2, 1, 217),
      (0x1B3, 0x1B5, 2, 1), (0x1B7, 0x1B7, 1, 219), (0x1B8, 0x1B8, 1, 1), (0x1BC, 0x1BC, 1, 1),
      (0x1C4, 0x1C4, 1, 2), (0x1C5, 0x1C5, 1, 1), (0x1C7, 0x1C7, 1, 2), (0x1C8, 0x1C8, 1, 1),
      (0x1CA, 0x1CA, 1, 2), (0x1CB, 0x1DB, 2, 1), (0x1DE, 0x1EE, 2, 1), (0x1F1, 0x1F1, 1, 2),
      (0x1F2, 0x1F4, 2, 1), (0x1F6, 0x1F6, 1, - 97), (0x1F7, 0x1F7, 1, - 56),
      (0x1F8, 0x21E, 2, 1), (0x220, 0x220, 1, - 130), (0x222, 0x232, 2, 1),
      (0x23A, 0x23A, 1, 10795), (0x23B, 0x23B, 1, 1), (0x23D, 0x23D, 1, - 163),
      (0x23E, 0x23E, 1, 10792), (0x241, 0x241, 1, 1), (0x243, 0x243, 1, - 195),
      (0x244, 0x244, 1, 69), (0x245, 0x245, 1, 71), (0x246, 0x24E, 2, 1), (0x370, 0x372, 2, 1),
      (0x376, 0x376, 1, 1), (0x37F, 0x37F, 1, 116), (0x386, 0x386, 1, 38),
      (0x388, 0x38A, 1, 37), (0x38C, 0x38C, 1, 64), (0x38E, 0x38F, 1, 63),
      (0x391, 0x3A1, 1, 32), (0x3A4, 0x3AB, 1, 32), (0x3CF, 0x3CF, 1, 8), (0x3D8, 0x3EE, 2, 1),
      (0x3F4, 0x3F4, 1, - 60), (0x3F7, 0x3F7, 1, 1), (0x3F9, 0x3F9, 1, - 7),
      (0x3FA, 0x3FA, 1, 1), (0x3FD, 0x3FF, 1, - 130), (0x400, 0x40F, 1, 80),
      (0x410, 0x42F, 1, 32), (0x460, 0x480, 2, 1), (0x48A, 0x4BE, 2, 1), (0x4C0, 0x4C0, 1, 15),
      (0x4C1, 0x4CD, 2, 1), (0x4D0, 0x52E, 2, 1), (0x531, 0x556, 1, 48),
      (0x10A0, 0x10C5, 1, 7264), (0x10C7, 0x10C7, 1, 7264), (0x10CD, 0x10CD, 1, 7264),
      (0x13A0, 0x13EF, 1, 38864), (0x13F0, 0x13F5, 1, 8), (0x1C90, 0x1CBA, 1, - 3008),
      (0x1CBD, 0x1CBF, 1, - 3008), (0x1E00, 0x1E94, 2, 1), (0x1E9E, 0x1E9E, 1, - 7615),
      (0x1EA0, 0x1EFE, 2, 1), (0x1F08, 0x1F0F, 1, - 8), (0x1F18, 0x1F1D, 1, - 8),
      (0x1F28, 0x1F2F, 1, - 8), (0x1F38, 0x1F3F, 1, - 8), (0x1F48, 0x1F4D, 1, - 8),
      (0x1F59, 0x1F5F, 2, - 8), (0x1F68, 0x1F6F, 1, - 8), (0x1F88, 0x1F8F, 1, - 8),
      (0x1F98, 0x1F9F, 1, - 8), (0x1FA8, 0x1FAF, 1, - 8), (0x1FB8, 0x1FB9, 1, - 8),
      (0x1FBA, 0x1FBB, 1, - 74), (0x1FBC, 0x1FBC, 1, - 9), (0x1FC8, 0x1FCB, 1, - 86),
      (0x1FCC, 0x1FCC, 1, - 9), (0x1FD8, 0x1FD9, 1, - 8), (0x1FDA, 0x1FDB, 1, - 100),
      (0x1FE8, 0x1FE9, 1, - 8), (0x1FEA, 0x1FEB, 1, - 112), (0x1FEC, 0x1FEC, 1, - 7),
      (0x1FF8, 0x1FF9, 1, - 128), (0x1FFA, 0x1FFB, 1, - 126), (0x1FFC, 0x1FFC, 1, - 9),
      (0x2126, 0x2126, 1, - 7517), (0x212A, 0x212A, 1, - 8383), (0x212B, 0x212B, 1, - 8262),
      (0x2132, 0x2132, 1, 28), (0x2160, 0x216F, 1, 16), (0x2183, 0x2183, 1, 1),
      (0x24B6, 0x24CF, 1, 26), (0x2C00, 0x2C2F, 1, 48), (0x2C60, 0x2C60, 1, 1),
      (0x2C62, 0x2C62, 1, - 10743), (0x2C63, 0x2C63, 1, - 3814), (0x2C64, 0x2C64, 1, - 10727),
      (0x2C67, 0x2C6B, 2, 1), (0x2C6D, 0x2C6D, 1, - 10780), (0x2C6E, 0x2C6E, 1, - 10749),
      (0x2C6F, 0x2C6F, 1, - 10783), (0x2C70, 0x2C70, 1, - 10782), (0x2C72, 0x2C72, 1, 1),
      (0x2C75, 0x2C75, 1, 1), (0x2C7E, 0x2C7F, 1, - 10815), (0x2C80, 0x2CE2, 2, 1),
      (0x2CEB, 0x2CED, 2, 1), (0x2CF2, 0x2CF2, 1, 1), (0xA640, 0xA66C, 2, 1),
      (0xA680, 0xA69A, 2, 1), (0xA722, 0xA72E, 2, 1), (0xA732, 0xA76E, 2, 1),
      (0xA779, 0xA77B, 2, 1), (0xA77D, 0xA77D, 1, - 35332), (0xA77E, 0xA786, 2, 1),
      (0xA78B, 0xA78B, 1, 1), (0xA78D, 0xA78D, 1, - 42280), (0xA790, 0xA792, 2, 1),
      (0xA796, 0xA7A8, 2, 1), (0xA7AA, 0xA7AA, 1, - 42308), (0xA7AB, 0xA7AB, 1, - 42319),
      (0xA7AC, 0xA7AC, 1, - 42315), (0xA7AD, 0xA7AD, 1, - 42305), (0xA7AE, 0xA7AE, 1, - 42308),
      (0xA7B0, 0xA7B0, 1, - 42258), (0xA7B1, 0xA7B1, 1, - 42282), (0xA7B2, 0xA7B2, 1, - 42261),
      (0xA7B3, 0xA7B3, 1, 928), (0xA7B4, 0xA7C2, 2, 1), (0xA7C4, 0xA7C4, 1, - 48),
      (0xA7C5, 0xA7C5, 1, - 42307), (0xA7C6, 0xA7C6, 1, - 35384), (0xA7C7, 0xA7C9, 2, 1),
      (0xA7D0, 0xA7D0, 1, 1), (0xA7D6, 0xA7D8, 2, 1), (0xA7F5, 0xA7F5, 1, 1),
      (0xFF21, 0xFF3A, 1, 32), (0x10400, 0x10427, 1, 40), (0x104B0, 0x104D3, 1, 40),
      (0x10570, 0x1057A, 1, 39), (0x1057C, 0x1058A, 1, 39), (0x1058C, 0x10592, 1, 39),
      (0x10594, 0x10595, 1, 39), (0x10C80, 0x10CB2, 1, 64), (0x118A0, 0x118BF, 1, 32),
      (0x16E40, 0x16E5F, 1, 32), (0x1E900, 0x1E921, 1, 34)]"

definition CASED_RUNS :: "(nat \<times> nat) list" where
  "CASED_RUNS =
     [(0x41, 0x5A), (0x61, 0x7A), (0xAA, 0xAA), (0xB5, 0xB5), (0xBA, 0xBA), (0xC0, 0xD6),
      (0xD8, 0xF6), (0xF8, 0x1BA), (0x1BC, 0x1BF), (0x1C4, 0x293), (0x295, 0x2B8),
      (0x2C0, 0x2C1), (0x2E0, 0x2E4), (0x345, 0x345), (0x370, 0x373), (0x376, 0x377),
      (0x37A, 0x37D), (0x37F, 0x37F), (0x386, 0x386), (0x388, 0x38A), (0x38C, 0x38C),
      (0x38E, 0x3A1), (0x3A3, 0x3F5), (0x3F7, 0x481), (0x48A, 0x52F), (0x531, 0x556),
      (0x560, 0x588), (0x10A0, 0x10C5), (0x10C7, 0x10C7), (0x10CD, 0x10CD), (0x10D0, 0x10FA),
      (0x10FD, 0x10FF), (0x13A0, 0x13F5), (0x13F8, 0x13FD), (0x1C80, 0x1C88), (0x1C90, 0x1CBA),
      (0x1CBD, 0x1CBF), (0x1D00, 0x1DBF), (0x1E00, 0x1F15), (0x1F18, 0x1F1D), (0x1F20, 0x1F45),
      (0x1F48, 0x1F4D), (0x1F50, 0x1F57), (0x1F59, 0x1F59), (0x1F5B, 0x1F5B), (0x1F5D, 0x1F5D),
      (0x1F5F, 0x1F7D), (0x1F80, 0x1FB4), (0x1FB6, 0x1FBC), (0x1FBE, 0x1FBE), (0x1FC2, 0x1FC4),
      (0x1FC6, 0x1FCC), (0x1FD0, 0x1FD3), (0x1FD6, 0x1FDB), (0x1FE0, 0x1FEC), (0x1FF2, 0x1FF4),
      (0x1FF6, 0x1FFC), (0x2071, 0x2071), (0x207F, 0x207F), (0x2090, 0x209C), (0x2102, 0x2102),
      (0x2107, 0x2107), (0x210A, 0x2113), (0x2115, 0x2115), (0x2119, 0x211D), (0x2124, 0x2124),
      (0x2126, 0x2126), (0x2128, 0x2128), (0x212A, 0x212D), (0x212F, 0x2134), (0x2139, 0x2139),
      (0x213C, 0x213F), (0x2145, 0x2149), (0x214E, 0x214E), (0x2160, 0x217F), (0x2183, 0x2184),
      (0x24B6, 0x24E9), (0x2C00, 0x2CE4), (0x2CEB, 0x2CEE), (0x2CF2, 0x2CF3), (0x2D00, 0x2D25),
      (0x2D27, 0x2D27), (0x2D2D, 0x2D2D), (0xA640, 0xA66D), (0xA680, 0xA69D), (0xA722, 0xA787),
      (0xA78B, 0xA78E), (0xA790, 0xA7CA), (0xA7D0, 0xA7D1), (0xA7D3, 0xA7D3), (0xA7D5, 0xA7D9),
      (0xA7F5, 0xA7F6), (0xA7F8, 0xA7FA), (0xAB30, 0xAB5A), (0xAB5C, 0xAB68), (0xAB70, 0xABBF),
      (0xFB00, 0xFB06), (0xFB13, 0xFB17), (0xFF21, 0xFF3A), (0xFF41, 0xFF5A),
      (0x10400, 0x1044F), (0x104B0, 0x104D3), (0x104D8, 0x104FB), (0x10570, 0x1057A),
      (0x1057C, 0x1058A), (0x1058C, 0x10592), (0x10594, 0x10595), (0x10597, 0x105A1),
      (0x105A3, 0x105B1), (0x105B3, 0x105B9), (0x105BB, 0x105BC), (0x10780, 0x10780),
      (0x10783, 0x10785), (0x10787, 0x107B0), (0x107B2, 0x107BA), (0x10C80, 0x10CB2),
      (0x10CC0, 0x10CF2), (0x118A0, 0x118DF), (0x16E40, 0x16E7F), (0x1D400, 0x1D454),
      (0x1D456, 0x1D49C), (0x1D49E, 0x1D49F), (0x1D4A2, 0x1D4A2), (0x1D4A5, 0x1D4A6),
      (0x1D4A9, 0x1D4AC), (0x1D4AE, 0x1D4B9), (0x1D4BB, 0x1D4BB), (0x1D4BD, 0x1D4C3),
      (0x1D4C5, 0x1D505), (0x1D507, 0x1D50A), (0x1D50D, 0x1D514), (0x1D516, 0x1D51C),
      (0x1D51E, 0x1D539), (0x1D53B, 0x1D53E), (0x1D540, 0x1D544), (0x1D546, 0x1D546),
      (0x1D54A, 0x1D550), (0x1D552, 0x1D6A5), (0x1D6A8, 0x1D6C0), (0x1D6C2, 0x1D6DA),
      (0x1D6DC, 0x1D6FA), (0x1D6FC, 0x1D714), (0x1D716, 0x1D734), (0x1D736, 0x1D74E),
      (0x1D750, 0x1D76E), (0x1D770, 0x1D788), (0x1D78A, 0x1D7A8), (0x1D7AA, 0x1D7C2),
      (0x1D7C4, 0x1D7CB), (0x1DF00, 0x1DF09), (0x1DF0B, 0x1DF1E), (0x1E900, 0x1E943),
      (0x1F130, 0x1F149), (0x1F150, 0x1F169), (0x1F170, 0x1F189)]"

definition CASE_IGNORABLE_RUNS :: "(nat \<times> nat) list" where
  "CASE_IGNORABLE_RUNS =
     [(0x27, 0x27), (0x2E, 0x2E), (0x3A, 0x3A), (0x5E, 0x5E), (0x60, 0x60), (0xA8, 0xA8),
      (0xAD, 0xAD), (0xAF, 0xAF), (0xB4, 0xB4), (0xB7, 0xB8), (0x2B0, 0x36F), (0x374, 0x375),
      (0x37A, 0x37A), (0x384, 0x385), (0x387, 0x387), (0x483, 0x489), (0x559, 0x559),
      (0x55F, 0x55F), (0x591, 0x5BD), (0x5BF, 0x5BF), (0x5C1, 0x5C2), (0x5C4, 0x5C5),
      (0x5C7, 0x5C7), (0x5F4, 0x5F4), (0x600, 0x605), (0x610, 0x61A), (0x61C, 0x61C),
      (0x640, 0x640), (0x64B, 0x65F), (0x670, 0x670), (0x6D6, 0x6DD), (0x6DF, 0x6E8),
      (0x6EA, 0x6ED), (0x70F, 0x70F), (0x711, 0x711), (0x730, 0x74A), (0x7A6, 0x7B0),
      (0x7EB, 0x7F5), (0x7FA, 0x7FA), (0x7FD, 0x7FD), (0x816, 0x82D), (0x859, 0x85B),
      (0x888, 0x888), (0x890, 0x891), (0x898, 0x89F), (0x8C9, 0x902), (0x93A, 0x93A),
      (0x93C, 0x93C), (0x941, 0x948), (0x94D, 0x94D), (0x951, 0x957), (0x962, 0x963),
      (0x971, 0x971), (0x981, 0x981), (0x9BC, 0x9BC), (0x9C1, 0x9C4), (0x9CD, 0x9CD),
      (0x9E2, 0x9E3), (0x9FE, 0x9FE), (0xA01, 0xA02), (0xA3C, 0xA3C), (0xA41, 0xA42),
      (0xA47, 0xA48), (0xA4B, 0xA4D), (0xA51, 0xA51), (0xA70, 0xA71), (0xA75, 0xA75),
      (0xA81, 0xA82), (0xABC, 0xABC), (0xAC1, 0xAC5), (0xAC7, 0xAC8), (0xACD, 0xACD),
      (0xAE2, 0xAE3), (0xAFA, 0xAFF), (0xB01, 0xB01), (0xB3C, 0xB3C), (0xB3F, 0xB3F),
      (0xB41, 0xB44), (0xB4D, 0xB4D), (0xB55, 0xB56), (0xB62, 0xB63), (0xB82, 0xB82),
      (0xBC0, 0xBC0), (0xBCD, 0xBCD), (0xC00, 0xC00), (0xC04, 0xC04), (0xC3C, 0xC3C),
      (0xC3E, 0xC40), (0xC46, 0xC48), (0xC4A, 0xC4D), (0xC55, 0xC56), (0xC62, 0xC63),
      (0xC81, 0xC81), (0xCBC, 0xCBC), (0xCBF, 0xCBF), (0xCC6, 0xCC6), (0xCCC, 0xCCD),
      (0xCE2, 0xCE3), (0xD00, 0xD01), (0xD3B, 0xD3C), (0xD41, 0xD44), (0xD4D, 0xD4D),
      (0xD62, 0xD63), (0xD81, 0xD81), (0xDCA, 0xDCA), (0xDD2, 0xDD4), (0xDD6, 0xDD6),
      (0xE31, 0xE31), (0xE34, 0xE3A), (0xE46, 0xE4E), (0xEB1, 0xEB1), (0xEB4, 0xEBC),
      (0xEC6, 0xEC6), (0xEC8, 0xECD), (0xF18, 0xF19), (0xF35, 0xF35), (0xF37, 0xF37),
      (0xF39, 0xF39), (0xF71, 0xF7E), (0xF80, 0xF84), (0xF86, 0xF87), (0xF8D, 0xF97),
      (0xF99, 0xFBC), (0xFC6, 0xFC6), (0x102D, 0x1030), (0x1032, 0x1037), (0x1039, 0x103A),
      (0x103D, 0x103E), (0x1058, 0x1059), (0x105E, 0x1060), (0x1071, 0x1074), (0x1082, 0x1082),
      (0x1085, 0x1086), (0x108D, 0x108D), (0x109D, 0x109D), (0x10FC, 0x10FC), (0x135D, 0x135F),
      (0x1712, 0x1714), (0x1732, 0x1733), (0x1752, 0x1753), (0x1772, 0x1773), (0x17B4, 0x17B5),
      (0x17B7, 0x17BD), (0x17C6, 0x17C6), (0x17C9, 0x17D3), (0x17D7, 0x17D7), (0x17DD, 0x17DD),
      (0x180B, 0x180F), (0x1843, 0x1843), (0x1885, 0x1886), (0x18A9, 0x18A9), (0x1920, 0x1922),
      (0x1927, 0x1928), (0x1932, 0x1932), (0x1939, 0x193B), (0x1A17, 0x1A18), (0x1A1B, 0x1A1B),
      (0x1A56, 0x1A56), (0x1A58, 0x1A5E), (0x1A60, 0x1A60), (0x1A62, 0x1A62), (0x1A65, 0x1A6C),
      (0x1A73, 0x1A7C), (0x1A7F, 0x1A7F), (0x1AA7, 0x1AA7), (0x1AB0, 0x1ACE), (0x1B00, 0x1B03),
      (0x1B34, 0x1B34), (0x1B36, 0x1B3A), (0x1B3C, 0x1B3C), (0x1B42, 0x1B42), (0x1B6B, 0x1B73),
      (0x1B80, 0x1B81), (0x1BA2, 0x1BA5), (0x1BA8, 0x1BA9), (0x1BAB, 0x1BAD), (0x1BE6, 0x1BE6),
      (0x1BE8, 0x1BE9), (0x1BED, 0x1BED), (0x1BEF, 0x1BF1), (0x1C2C, 0x1C33), (0x1C36, 0x1C37),
      (0x1C78, 0x1C7D), (0x1CD0, 0x1CD2), (0x1CD4, 0x1CE0), (0x1CE2, 0x1CE8), (0x1CED, 0x1CED),
      (0x1CF4, 0x1CF4), (0x1CF8, 0x1CF9), (0x1D2C, 0x1D6A), (0x1D78, 0x1D78), (0x1D9B, 0x1DFF),
      (0x1FBD, 0x1FBD), (0x1FBF, 0x1FC1), (0x1FCD, 0x1FCF), (0x1FDD, 0x1FDF), (0x1FED, 0x1FEF),
      (0x1FFD, 0x1FFE), (0x200B, 0x200F), (0x2018, 0x2019), (0x2024, 0x2024), (0x2027, 0x2027),
      (0x202A, 0x202E), (0x2060, 0x2064), (0x2066, 0x206F), (0x2071, 0x2071), (0x207F, 0x207F),
      (0x2090, 0x209C), (0x20D0, 0x20F0), (0x2C7C, 0x2C7D), (0x2CEF, 0x2CF1), (0x2D6F, 0x2D6F),
      (0x2D7F, 0x2D7F), (0x2DE0, 0x2DFF), (0x2E2F, 0x2E2F), (0x3005, 0x3005), (0x302A, 0x302D),
      (0x3031, 0x3035), (0x303B, 0x303B), (0x3099, 0x309E), (0x30FC, 0x30FE), (0xA015, 0xA015),
      (0xA4F8, 0xA4FD), (0xA60C, 0xA60C), (0xA66F, 0xA672), (0xA674, 0xA67D), (0xA67F, 0xA67F),
      (0xA69C, 0xA69F), (0xA6F0, 0xA6F1), (0xA700, 0xA721), (0xA770, 0xA770), (0xA788, 0xA78A),
      (0xA7F2, 0xA7F4), (0xA7F8, 0xA7F9), (0xA802, 0xA802), (0xA806, 0xA806), (0xA80B, 0xA80B),
      (0xA825, 0xA826), (0xA82C, 0xA82C), (0xA8C4, 0xA8C5), (0xA8E0, 0xA8F1), (0xA8FF, 0xA8FF),
      (0xA926, 0xA92D), (0xA947, 0xA951), (0xA980, 0xA982), (0xA9B3, 0xA9B3), (0xA9B6, 0xA9B9),
      (0xA9BC, 0xA9BD), (0xA9CF, 0xA9CF), (0xA9E5, 0xA9E6), (0xAA29, 0xAA2E), (0xAA31, 0xAA32),
      (0xAA35, 0xAA36), (0xAA43, 0xAA43), (0xAA4C, 0xAA4C), (0xAA70, 0xAA70), (0xAA7C, 0xAA7C),
      (0xAAB0, 0xAAB0), (0xAAB2, 0xAAB4), (0xAAB7, 0xAAB8), (0xAABE, 0xAABF), (0xAAC1, 0xAAC1),
      (0xAADD, 0xAADD), (0xAAEC, 0xAAED), (0xAAF3, 0xAAF4), (0xAAF6, 0xAAF6), (0xAB5B, 0xAB5F),
      (0xAB69, 0xAB6B), (0xABE5, 0xABE5), (0xABE8, 0xABE8), (0xABED, 0xABED), (0xFB1E, 0xFB1E),
      (0xFBB2, 0xFBC2), (0xFE00, 0xFE0F), (0xFE13, 0xFE13), (0xFE20, 0xFE2F), (0xFE52, 0xFE52),
      (0xFE55, 0xFE55), (0xFEFF, 0xFEFF), (0xFF07, 0xFF07), (0xFF0E, 0xFF0E), (0xFF1A, 0xFF1A),
      (0xFF3E, 0xFF3E), (0xFF40, 0xFF40), (0xFF70, 0xFF70), (0xFF9E, 0xFF9F), (0xFFE3, 0xFFE3),
      (0xFFF9, 0xFFFB), (0x101FD, 0x101FD), (0x102E0, 0x102E0), (0x10376, 0x1037A),
      (0x10780, 0x10785), (0x10787, 0x107B0), (0x107B2, 0x107BA), (0x10A01, 0x10A03),
      (0x10A05, 0x10A06), (0x10A0C, 0x10A0F), (0x10A38, 0x10A3A), (0x10A3F, 0x10A3F),
      (0x10AE5, 0x10AE6), (0x10D24, 0x10D27), (0x10EAB, 0x10EAC), (0x10F46, 0x10F50),
      (0x10F82, 0x10F85), (0x11001, 0x11001), (0x11038, 0x11046), (0x11070, 0x11070),
      (0x11073, 0x11074), (0x1107F, 0x11081), (0x110B3, 0x110B6), (0x110B9, 0x110BA),
      (0x110BD, 0x110BD), (0x110C2, 0x110C2), (0x110CD, 0x110CD), (0x11100, 0x11102),
      (0x11127, 0x1112B), (0x1112D, 0x11134), (0x11173, 0x11173), (0x11180, 0x11181),
      (0x111B6, 0x111BE), (0x111C9, 0x111CC), (0x111CF, 0x111CF), (0x1122F, 0x11231),
      (0x11234, 0x11234), (0x11236, 0x11237), (0x1123E, 0x1123E), (0x112DF, 0x112DF),
      (0x112E3, 0x112EA), (0x11300, 0x11301), (0x1133B, 0x1133C), (0x11340, 0x11340),
      (0x11366, 0x1136C), (0x11370, 0x11374), (0x11438, 0x1143F), (0x11442, 0x11444),
      (0x11446, 0x11446), (0x1145E, 0x1145E), (0x114B3, 0x114B8), (0x114BA, 0x114BA),
      (0x114BF, 0x114C0), (0x114C2, 0x114C3), (0x115B2, 0x115B5), (0x115BC, 0x115BD),
      (0x115BF, 0x115C0), (0x115DC, 0x115DD), (0x11633, 0x1163A), (0x1163D, 0x1163D),
      (0x1163F, 0x11640), (0x116AB, 0x116AB), (0x116AD, 0x116AD), (0x116B0, 0x116B5),
      (0x116B7, 0x116B7), (0x1171D, 0x1171F), (0x11722, 0x11725), (0x11727, 0x1172B),
      (0x1182F, 0x11837), (0x11839, 0x1183A), (0x1193B, 0x1193C), (0x1193E, 0x1193E),
      (0x11943, 0x11943), (0x119D4, 0x119D7), (0x119DA, 0x119DB), (0x119E0, 0x119E0),
      (0x11A01, 0x11A0A), (0x11A33, 0x11A38), (0x11A3B, 0x11A3E), (0x11A47, 0x11A47),
      (0x11A51, 0x11A56), (0x11A59, 0x11A5B), (0x11A8A, 0x11A96), (0x11A98, 0x11A99),
      (0x11C30, 0x11C36), (0x11C38, 0x11C3D), (0x11C3F, 0x11C3F), (0x11C92, 0x11CA7),
      (0x11CAA, 0x11CB0), (0x11CB2, 0x11CB3), (0x11CB5, 0x11CB6), (0x11D31, 0x11D36),
      (0x11D3A, 0x11D3A), (0x11D3C, 0x11D3D), (0x11D3F, 0x11D45), (0x11D47, 0x11D47),
      (0x11D90, 0x11D91), (0x11D95, 0x11D95), (0x11D97, 0x11D97), (0x11EF3, 0x11EF4),
      (0x13430, 0x13438), (0x16AF0, 0x16AF4), (0x16B30, 0x16B36), (0x16B40, 0x16B43),
      (0x16F4F, 0x16F4F), (0x16F8F, 0x16F9F), (0x16FE0, 0x16FE1), (0x16FE3, 0x16FE4),
      (0x1AFF0, 0x1AFF3), (0x1AFF5, 0x1AFFB), (0x1AFFD, 0x1AFFE), (0x1BC9D, 0x1BC9E),
      (0x1BCA0, 0x1BCA3), (0x1CF00, 0x1CF2D), (0x1CF30, 0x1CF46), (0x1D167, 0x1D169),
      (0x1D173, 0x1D182), (0x1D185, 0x1D18B), (0x1D1AA, 0x1D1AD), (0x1D242, 0x1D244),
      (0x1DA00, 0x1DA36), (0x1DA3B, 0x1DA6C), (0x1DA75, 0x1DA75), (0x1DA84, 0x1DA84),
      (0x1DA9B, 0x1DA9F), (0x1DAA1, 0x1DAAF), (0x1E000, 0x1E006), (0x1E008, 0x1E018),
      (0x1E01B, 0x1E021), (0x1E023, 0x1E024), (0x1E026, 0x1E02A), (0x1E130, 0x1E13D),
      (0x1E2AE, 0x1E2AE), (0x1E2EC, 0x1E2EF), (0x1E8D0, 0x1E8D6), (0x1E944, 0x1E94B),
      (0x1F3FB, 0x1F3FF), (0xE0001, 0xE0001), (0xE0020, 0xE007F), (0xE0100, 0xE01EF)]"

definition in_runs :: "nat \<Rightarrow> (nat \<times> nat) list \<Rightarrow> bool" where
  "in_runs c runs \<longleftrightarrow> list_ex (\<lambda>(lo, hi). lo \<le> c \<and> c \<le> hi) runs"

definition lower_simple :: "nat \<Rightarrow> nat" where
  "lower_simple c =
     (case find (\<lambda>(lo, hi, step, d). lo \<le> c \<and> c \<le> hi \<and> (c - lo) mod step = 0) LOWER_RUNS of
        None \<Rightarrow> c
      | Some (lo, hi, step, d) \<Rightarrow> nat (int c + d))"

text \<open>
  The lowercase of one code point other than the capital sigma: the ASCII letters first;
  the capital I with a dot above (U+0130) is the one code point that becomes two.
\<close>

definition lower_cp :: "nat \<Rightarrow> ustr" where
  "lower_cp c =
     (if c < 128 then [if 65 \<le> c \<and> c \<le> 90 then c + 32 else c]
      else if c = 0x130 then [0x69, 0x307]
      else [lower_simple c])"

text \<open>
  The capital sigma (U+03A3) becomes the final sigma (U+03C2) when the nearest code point
  before it that is not case-ignorable exists and is cased, and the nearest such code
  point after it does not exist or is not cased; otherwise it becomes U+03C3. \<open>seen\<close>
  holds the code points before the sigma, the nearest first, \<open>rest\<close> those after it.
\<close>

definition final_sigma :: "ustr \<Rightarrow> ustr \<Rightarrow> bool" where
  "final_sigma seen rest =
     (case dropWhile (\<lambda>c. in_runs c CASE_IGNORABLE_RUNS) seen of
        [] \<Rightarrow> False
      | b # _ \<Rightarrow>
          in_runs b CASED_RUNS
          \<and> (case dropWhile (\<lambda>c. in_runs c CASE_IGNORABLE_RUNS) rest of
                [] \<Rightarrow> True
              | a # _ \<Rightarrow> \<not> in_runs a CASED_RUNS))"

fun lower_loop :: "ustr \<Rightarrow> ustr \<Rightarrow> ustr" where
  "lower_loop seen [] = []"
| "lower_loop seen (c # cs) =
     (if c = 0x3A3 then [if final_sigma seen cs then 0x3C2 else 0x3C3] else lower_cp c)
     @ lower_loop (c # seen) cs"

definition py_lower :: "ustr \<Rightarrow> ustr" where
  "py_lower s = lower_loop [] s"

text \<open>\<open>str(n)\<close> of an integer, as \<open>f"{p}"\<close> prints it.\<close>

fun str_nat :: "nat \<Rightarrow> ustr" where
  "str_nat n = (if n < 10 then [48 + n] else str_nat (n div 10) @ [48 + n mod 10])"

declare str_nat.simps [simp del]

definition str_int :: "int \<Rightarrow> ustr" where
  "str_int i = (if i < 0 then 45 # str_nat (nat (- i)) else str_nat (nat i))"

text \<open>
  \<open>int(s)\<close> of a string, in base 10. The code points from 127 on are replaced first: a
  white space by a blank, a decimal digit of any script by its ASCII digit, any other by
  \<open>?\<close>. Then blanks and the controls 9 to 13 are skipped at both ends, one sign is
  allowed, and the digits may be grouped by single underscores; more than
  \<open>max_str_digits\<close> digits are refused (4300 is the default of
  \<open>sys.set_int_max_str_digits\<close>). \<open>None\<close> is the \<open>ValueError\<close>. A run \<open>(lo, hi)\<close> of
  \<open>DECIMAL_RUNS\<close> holds decimal digits of Unicode 14.0.0 in the order \<open>0, \<dots>, 9\<close>,
  once or several times over.
\<close>

definition DECIMAL_RUNS :: "(nat \<times> nat) list" where
  "DECIMAL_RUNS =
     [(0x660, 0x669), (0x6F0, 0x6F9), (0x7C0, 0x7C9), (0x966, 0x96F), (0x9E6, 0x9EF),
      (0xA66, 0xA6F), (0xAE6, 0xAEF), (0xB66, 0xB6F), (0xBE6, 0xBEF), (0xC66, 0xC6F),
      (0xCE6, 0xCEF), (0xD66, 0xD6F), (0xDE6, 0xDEF), (0xE50, 0xE59), (0xED0, 0xED9),
      (0xF20, 0xF29), (0x1040, 0x1049), (0x1090, 0x1099), (0x17E0, 0x17E9), (0x1810, 0x1819),
      (0x1946, 0x194F), (0x19D0, 0x19D9), (0x1A80, 0x1A89), (0x1A90, 0x1A99), (0x1B50, 0x1B59),
      (0x1BB0, 0x1BB9), (0x1C40, 0x1C49), (0x1C50, 0x1C59), (0xA620, 0xA629), (0xA8D0, 0xA8D9),
      (0xA900, 0xA909), (0xA9D0, 0xA9D9), (0xA9F0, 0xA9F9), (0xAA50, 0xAA59), (0xABF0, 0xABF9),
      (0xFF10, 0xFF19), (0x104A0, 0x104A9), (0x10D30, 0x10D39), (0x11066, 0x1106F),
      (0x110F0, 0x110F9), (0x11136, 0x1113F), (0x111D0, 0x111D9), (0x112F0, 0x112F9),
      (0x11450, 0x11459), (0x114D0, 0x114D9), (0x11650, 0x11659), (0x116C0, 0x116C9),
      (0x11730, 0x11739), (0x118E0, 0x118E9), (0x11950, 0x11959), (0x11C50, 0x11C59),
      (0x11D50, 0x11D59), (0x11DA0, 0x11DA9), (0x16A60, 0x16A69), (0x16AC0, 0x16AC9),
      (0x16B50, 0x16B59), (0x1D7CE, 0x1D7FF), (0x1E140, 0x1E149), (0x1E2F0, 0x1E2F9),
      (0x1E950, 0x1E959), (0x1FBF0, 0x1FBF9)]"

definition decimal_value :: "nat \<Rightarrow> nat option" where
  "decimal_value c =
     map_option (\<lambda>(lo, hi). (c - lo) mod 10) (find (\<lambda>(lo, hi). lo \<le> c \<and> c \<le> hi) DECIMAL_RUNS)"

definition to_ascii_cp :: "nat \<Rightarrow> nat" where
  "to_ascii_cp c =
     (if c < 127 then c
      else if is_space c then 32
      else case decimal_value c of None \<Rightarrow> 63 | Some d \<Rightarrow> 48 + d)"

definition c_space :: "nat \<Rightarrow> bool" where
  "c_space c \<longleftrightarrow> (9 \<le> c \<and> c \<le> 13) \<or> c = 32"

definition max_str_digits :: nat where
  "max_str_digits = 4300"

definition is_digit :: "nat \<Rightarrow> bool" where
  "is_digit c \<longleftrightarrow> 48 \<le> c \<and> c \<le> 57"

fun parse_digits :: "ustr \<Rightarrow> nat \<Rightarrow> nat \<Rightarrow> bool \<Rightarrow> nat option" where
  "parse_digits [] acc digits prev = (if prev \<and> digits \<le> max_str_digits then Some acc else None)"
| "parse_digits (c # cs) acc digits prev =
     (if is_digit c then parse_digits cs (10 * acc + (c - 48)) (digits + 1) True
      else if c = 95 \<and> prev then parse_digits cs acc digits False
      else None)"

definition py_int :: "ustr \<Rightarrow> int option" where
  "py_int s =
     (case rev (dropWhile c_space (rev (dropWhile c_space (map to_ascii_cp s)))) of
        [] \<Rightarrow> None
      | c # cs \<Rightarrow>
          if c = 45 then map_option (\<lambda>n. - int n) (parse_digits cs 0 0 False)
          else if c = 43 then map_option int (parse_digits cs 0 0 False)
          else map_option int (parse_digits (c # cs) 0 0 False))"

text \<open>
  \<open>round(x)\<close> of Python 3 with one argument: the nearest integer, a tie going to the even
  one. The floats of the source are modelled by the rationals.
\<close>

definition py_round :: "rat \<Rightarrow> int" where
  "py_round x =
     (let f = \<lfloor>x\<rfloor>; d = x - of_int f
      in if d < 1 / 2 then f
         else if 1 / 2 < d then f + 1
         else if even f then f else f + 1)"

section \<open>Velocity classifier (sync.py)\<close>

subsection \<open>Tag literals\<close>

text \<open>
  The tag literals of \<open>sync.py\<close>, \<open>db.py\<close> and \<open>cli.py\<close>, code point by code point as
  they stand in the files.
\<close>

definition TAG_CHECK :: ustr where
  "TAG_CHECK = [0xE2, 0x153, 0x2026]"

definition TAG_ROCKET :: ustr where
  "TAG_ROCKET = [0xF0, 0x178, 0x161, 0x20AC]"

definition TAG_FIRE :: ustr where
  "TAG_FIRE = [0xF0, 0x178, 0x201D, 0xA5]"

definition TAG_SLEEPY :: ustr where
  "TAG_SLEEPY = [0xF0, 0x178, 0x2DC, 0xB4]"

definition TAG_CLOVER :: ustr where
  "TAG_CLOVER = [0xE2, 0x2DC, 0x2DC, 0xEF, 0xB8]"

definition INSUFFICIENT_DATA :: ustr where
  "INSUFFICIENT_DATA = asc ''insufficient_data''"

subsection \<open>Percentile and tag\<close>

text \<open>
  The loop of \<open>_percentile\<close> over \<open>enumerate(uniq_desc, start=1)\<close>: \<open>rank\<close> keeps its
  initial value when no element is reached by \<open>value\<close>.
\<close>

fun rank_loop :: "rat list \<Rightarrow> rat \<Rightarrow> int \<Rightarrow> int \<Rightarrow> int" where
  "rank_loop [] v i rank = rank"
| "rank_loop (u # us) v i rank = (if v \<ge> u then i else rank_loop us v (i + 1) rank)"

definition percentile :: "rat list \<Rightarrow> rat \<Rightarrow> ustr option" where
  "percentile values v =
     (if values = [] then None
      else
        let uniq_desc = rev (sort (remdups values)) in
        if uniq_desc = [] then None
        else if length uniq_desc = 1 then Some (asc ''50%'')
        else
          let rank = rank_loop uniq_desc v 1 (int (length uniq_desc));
              p = py_round (1 + (of_int (rank - 1) * 99) / of_int (int (length uniq_desc) - 1));
              p = max 1 (min 100 p)
          in Some (str_int p @ asc ''%''))"

definition velocity_tag :: "ustr option \<Rightarrow> ustr" where
  "velocity_tag pct =
     (let p = (case pct of
                 None \<Rightarrow> None
               | Some s \<Rightarrow> if s = [] then None else py_int (filter (\<lambda>c. c \<noteq> 37) s))
      in case p of
           None \<Rightarrow> TAG_CHECK
         | Some p \<Rightarrow>
             if p \<le> 5 then TAG_ROCKET
             else if p \<le> 15 then TAG_FIRE
             else if p \<le> 35 then TAG_CHECK
             else if p > 35 then TAG_SLEEPY
             else TAG_CHECK)"

definition is_high_tag :: "ustr option \<Rightarrow> bool" where
  "is_high_tag tag =
     (case tag of
        None \<Rightarrow> False
      | Some t \<Rightarrow> if t = [] then False else py_in TAG_FIRE t \<or> py_in TAG_ROCKET t)"

subsection \<open>Snapshots and scraped items\<close>

text \<open>
  Times are seconds since the epoch. A checkpoint (\<open>d1\<close>, \<open>d3\<close>, \<open>d7\<close>, \<open>d21\<close>, or any
  other text a queue row may carry) and a stage label are ASCII strings.
\<close>

type_synonym time = int

text \<open>The four columns \<open>dN_at, dN_views, dN_likes, dN_comments\<close> of one checkpoint.\<close>

record cp_cols =
  c_at :: "time option"
  c_views :: "int option"
  c_likes :: "int option"
  c_comments :: "int option"

text \<open>A row of \<open>post_snapshots\<close>, unique per \<open>(subscriber_id, handle, post_url)\<close>.\<close>

record snapshot =
  sn_subscriber_id :: int
  sn_handle :: ustr
  sn_post_url :: ustr
  sn_media_type :: "ustr option"
  sn_posted_at :: "time option"
  sn_d1 :: cp_cols
  sn_d3 :: cp_cols
  sn_d7 :: cp_cols
  sn_d21 :: cp_cols

text \<open>
  What the classifier reads of a scraped item: its \<open>type\<close> and \<open>mediaType\<close> entries, and
  the time \<open>_to_dt\<close> makes of its timestamp entries (\<open>None\<close> when there is none or it
  does not parse).
\<close>

record item =
  it_type :: "ustr option"
  it_mediaType :: "ustr option"
  it_posted_at :: "time option"

definition opt_str_or :: "ustr option \<Rightarrow> ustr \<Rightarrow> ustr" where
  "opt_str_or a b = (case a of None \<Rightarrow> b | Some s \<Rightarrow> if s \<noteq> [] then s else b)"

text \<open>\<open>item.get("type") or item.get("mediaType") or ""\<close>\<close>

definition item_type :: "item \<Rightarrow> ustr" where
  "item_type it = opt_str_or (it_type it) (opt_str_or (it_mediaType it) [])"

definition int_or0 :: "int option \<Rightarrow> int" where
  "int_or0 v = (case v of None \<Rightarrow> 0 | Some n \<Rightarrow> n)"

text \<open>
  \<open>_metric_value\<close>; its first argument is the value of
  \<open>item.get("type") or item.get("mediaType") or ""\<close>.
\<close>

definition metric_value :: "ustr \<Rightarrow> int option \<Rightarrow> int option \<Rightarrow> int option \<Rightarrow> rat" where
  "metric_value ty views likes comments =
     (let media_type = py_lower ty in
      if py_in (asc ''video'') media_type \<or> py_in (asc ''reel'') media_type
        then of_int (int_or0 views)
      else if py_in (asc ''sidecar'') media_type \<or> py_in (asc ''carousel'') media_type
        then of_int (int_or0 likes) + 2 * of_int (int_or0 comments)
      else of_int (int_or0 likes))"



text \<open>The \<open>mapping\<close> / \<open>field_map\<close> dictionaries: the columns of a checkpoint.\<close>

definition cols_of :: "string \<Rightarrow> (snapshot \<Rightarrow> cp_cols) option" where
  "cols_of checkpoint =
     (if checkpoint = ''d1'' then Some sn_d1
      else if checkpoint = ''d3'' then Some sn_d3
      else if checkpoint = ''d7'' then Some sn_d7
      else if checkpoint = ''d21'' then Some sn_d21
      else None)"

definition metric_for_checkpoint :: "snapshot \<Rightarrow> item \<Rightarrow> string \<Rightarrow> rat option" where
  "metric_for_checkpoint snap it checkpoint =
     (case cols_of checkpoint of
        None \<Rightarrow> None
      | Some sel \<Rightarrow>
          let v = c_views (sel snap); l = c_likes (sel snap); c = c_comments (sel snap)
          in if v = None \<and> l = None \<and> c = None then None
             else Some (metric_value (item_type it) v l c))"

definition checkpoint_days :: "string \<Rightarrow> int" where
  "checkpoint_days checkpoint =
     (if checkpoint = ''d1'' then 1
      else if checkpoint = ''d3'' then 3
      else if checkpoint = ''d7'' then 7
      else if checkpoint = ''d21'' then 21
      else 0)"

definition min_cohort_size :: "string \<Rightarrow> nat" where
  "min_cohort_size checkpoint = (if checkpoint = ''d1'' then 12 else 20)"

text \<open>
  \<open>_velocity_pool\<close>: the query over \<open>post_snapshots\<close> (the rows of the subscriber and
  handle with a non-null column in the checkpoint's triple), then the loop over its rows
  with the loose media type filter.
\<close>

definition pool_rows :: "snapshot list \<Rightarrow> int \<Rightarrow> ustr \<Rightarrow> (snapshot \<Rightarrow> cp_cols) \<Rightarrow> snapshot list" where
  "pool_rows tbl subscriber_id handle sel =
     filter (\<lambda>r. sn_subscriber_id r = subscriber_id \<and> sn_handle r = handle
                 \<and> (c_views (sel r) \<noteq> None \<or> c_likes (sel r) \<noteq> None \<or> c_comments (sel r) \<noteq> None))
       tbl"

definition pool_skips :: "ustr \<Rightarrow> ustr \<Rightarrow> bool" where
  "pool_skips media_type mtype \<longleftrightarrow>
     media_type \<noteq> [] \<and> mtype \<noteq> [] \<and> \<not> py_in media_type mtype \<and> \<not> py_in mtype media_type"

fun pool_loop :: "snapshot list \<Rightarrow> ustr \<Rightarrow> (snapshot \<Rightarrow> cp_cols) \<Rightarrow> int \<Rightarrow> rat list" where
  "pool_loop [] media_type sel days = []"
| "pool_loop (row # rows) media_type sel days =
     (let mtype = py_lower (opt_str_or (sn_media_type row) [])
      in if pool_skips media_type mtype then pool_loop rows media_type sel days
         else metric_value mtype (c_views (sel row)) (c_likes (sel row)) (c_comments (sel row))
                / of_int days
              # pool_loop rows media_type sel days)"

definition velocity_pool :: "snapshot list \<Rightarrow> int \<Rightarrow> ustr \<Rightarrow> ustr \<Rightarrow> string \<Rightarrow> rat list" where
  "velocity_pool tbl subscriber_id handle media_type checkpoint =
     (let days = checkpoint_days checkpoint in
      if days \<le> 0 then []
      else case cols_of checkpoint of
             None \<Rightarrow> []
           | Some sel \<Rightarrow> pool_loop (pool_rows tbl subscriber_id handle sel) media_type sel days)"

text \<open>
  \<open>_velocity_tag_for_checkpoint\<close> and \<open>_velocity_from_snapshots\<close>. The latter returns
  \<open>(None, percentile, tag)\<close>; the model returns the percentile and the tag.
\<close>

definition velocity_tag_for_checkpoint ::
  "snapshot list \<Rightarrow> int \<Rightarrow> ustr \<Rightarrow> ustr \<Rightarrow> snapshot \<Rightarrow> item \<Rightarrow> string \<Rightarrow> ustr option" where
  "velocity_tag_for_checkpoint tbl subscriber_id handle media_type snap it checkpoint =
     (let days = checkpoint_days checkpoint in
      if days \<le> 0 then None
      else case metric_for_checkpoint snap it checkpoint of
             None \<Rightarrow> None
           | Some metric \<Rightarrow>
               let metric_per_day = metric / of_int days;
                   pool = velocity_pool tbl subscriber_id handle media_type checkpoint
               in if pool = [] then None
                  else if length pool < min_cohort_size checkpoint then Some INSUFFICIENT_DATA
                  else Some (velocity_tag (percentile pool metric_per_day)))"

definition snap_media_type :: "snapshot \<Rightarrow> item \<Rightarrow> ustr" where
  "snap_media_type snap it = py_lower (opt_str_or (sn_media_type snap) (item_type it))"

definition velocity_from_snapshots ::
  "snapshot list \<Rightarrow> int \<Rightarrow> ustr \<Rightarrow> snapshot \<Rightarrow> item \<Rightarrow> string \<Rightarrow> ustr option \<times> ustr" where
  "velocity_from_snapshots tbl subscriber_id handle snap it checkpoint =
     (let days = checkpoint_days checkpoint in
      if days \<le> 0 then (None, [])
      else case metric_for_checkpoint snap it checkpoint of
             None \<Rightarrow> (None, [])
           | Some current_metric \<Rightarrow>
               let metric_per_day = current_metric / of_int days;
                   media_type = snap_media_type snap it;
                   pool = velocity_pool tbl subscriber_id handle media_type checkpoint
               in if pool = [] then (None, [])
                  else if length pool < min_cohort_size checkpoint then (None, INSUFFICIENT_DATA)
                  else
                    let pct = percentile pool metric_per_day;
                        tag = velocity_tag pct;
                        tag = (if checkpoint = ''d7'' then
                                 let prev = velocity_tag_for_checkpoint tbl subscriber_id handle
                                              media_type snap it ''d1''
                                 in if \<not> is_high_tag prev \<and> is_high_tag (Some tag)
                                    then TAG_CLOVER @ tag else tag
                               else tag)
                    in (pct, tag))"

subsection \<open>Tables written by the classifier (db.py)\<close>

text \<open>A row of \<open>post_signals\<close>, unique per \<open>(subscriber_id, handle, post_url)\<close>.\<close>

record signal =
  sg_subscriber_id :: int
  sg_handle :: ustr
  sg_post_url :: ustr
  sg_media_type :: "ustr option"
  sg_posted_at :: "time option"
  sg_caption :: "ustr option"
  sg_velocity_tag :: "ustr option"
  sg_velocity_stage :: "string option"
  sg_velocity_percentile :: "ustr option"

text \<open>
  A row of \<open>post_checkpoint_metrics\<close>, unique per
  \<open>(subscriber_id, handle, post_url, checkpoint)\<close>.
\<close>

record cp_metric =
  cm_subscriber_id :: int
  cm_handle :: ustr
  cm_post_url :: ustr
  cm_checkpoint :: string
  cm_stage_label :: string
  cm_views :: "int option"
  cm_likes :: "int option"
  cm_comments :: "int option"
  cm_metric_value :: "rat option"
  cm_velocity_value :: "rat option"
  cm_velocity_tag :: "ustr option"
  cm_velocity_percentile :: "ustr option"

text \<open>
  The tables the classifier works on. The \<open>feed_id\<close> and \<open>feeder_id\<close> columns, which
  \<open>upsert_post_signal\<close> and \<open>upsert_checkpoint_metric\<close> fill from the \<open>feeds\<close> and
  \<open>feeders\<close> tables, and the \<open>updated_at\<close> columns are not part of the model.
\<close>

record store =
  post_snapshots :: "snapshot list"
  post_signals :: "signal list"
  post_checkpoint_metrics :: "cp_metric list"

definition empty_cols :: cp_cols where
  "empty_cols = \<lparr>c_at = None, c_views = None, c_likes = None, c_comments = None\<rparr>"

definition snap_key :: "snapshot \<Rightarrow> int \<times> ustr \<times> ustr" where
  "snap_key r = (sn_subscriber_id r, sn_handle r, sn_post_url r)"

text \<open>\<open>get_snapshots\<close>: the row of the post, if any.\<close>

definition get_snapshots :: "snapshot list \<Rightarrow> int \<Rightarrow> ustr \<Rightarrow> ustr \<Rightarrow> snapshot option" where
  "get_snapshots tbl subscriber_id handle post_url =
     find (\<lambda>r. snap_key r = (subscriber_id, handle, post_url)) tbl"

definition set_cols :: "string \<Rightarrow> (cp_cols \<Rightarrow> cp_cols) \<Rightarrow> snapshot \<Rightarrow> snapshot" where
  "set_cols checkpoint f r =
     (if checkpoint = ''d1'' then r\<lparr>sn_d1 := f (sn_d1 r)\<rparr>
      else if checkpoint = ''d3'' then r\<lparr>sn_d3 := f (sn_d3 r)\<rparr>
      else if checkpoint = ''d7'' then r\<lparr>sn_d7 := f (sn_d7 r)\<rparr>
      else if checkpoint = ''d21'' then r\<lparr>sn_d21 := f (sn_d21 r)\<rparr>
      else r)"

definition coalesce :: "'a option \<Rightarrow> 'a option \<Rightarrow> 'a option" where
  "coalesce a b = (case a of None \<Rightarrow> b | Some x \<Rightarrow> Some x)"

text \<open>
  \<open>upsert_snapshot\<close>: the insert that does nothing on a conflict, then the update of the
  checkpoint's columns (none for a checkpoint outside the field map).
\<close>

definition upsert_snapshot ::
  "snapshot list \<Rightarrow> time \<Rightarrow> int \<Rightarrow> ustr \<Rightarrow> ustr \<Rightarrow> ustr option \<Rightarrow> time option \<Rightarrow> string
   \<Rightarrow> int option \<Rightarrow> int option \<Rightarrow> int option \<Rightarrow> snapshot list" where
  "upsert_snapshot tbl now subscriber_id handle post_url media_type posted_at checkpoint
     views likes comments =
     (let k = (subscriber_id, handle, post_url);
          tbl1 = (if \<exists>r \<in> set tbl. snap_key r = k then tbl
                  else tbl @ [\<lparr>sn_subscriber_id = subscriber_id, sn_handle = handle,
                               sn_post_url = post_url, sn_media_type = media_type,
                               sn_posted_at = posted_at, sn_d1 = empty_cols, sn_d3 = empty_cols,
                               sn_d7 = empty_cols, sn_d21 = empty_cols\<rparr>])
      in if cols_of checkpoint = None then tbl1
         else map (\<lambda>r. if snap_key r = k
                         then set_cols checkpoint
                                (\<lambda>c. \<lparr>c_at = coalesce (c_at c) (Some now), c_views = views,
                                       c_likes = likes, c_comments = comments\<rparr>)
                                (r\<lparr>sn_media_type := coalesce (sn_media_type r) media_type\<rparr>)
                         else r) tbl1)"



subsection \<open>Applying the velocity to a scraped post (sync.py)\<close>




subsection \<open>A small account used in the examples\<close>

text \<open>
  Posts of subscriber 1 under the handle \<open>acct\<close>: \<open>peers n\<close> are \<open>n\<close> posts without a
  media type whose \<open>d1\<close> and \<open>d7\<close> triples hold \<open>i\<close> and \<open>7 * i\<close> likes.
\<close>

definition likes_cols :: "int \<Rightarrow> cp_cols" where
  "likes_cols n = \<lparr>c_at = Some 0, c_views = None, c_likes = Some n, c_comments = None\<rparr>"

definition mk_snap :: "ustr \<Rightarrow> ustr option \<Rightarrow> cp_cols \<Rightarrow> cp_cols \<Rightarrow> snapshot" where
  "mk_snap url mt d1 d7 =
     \<lparr>sn_subscriber_id = 1, sn_handle = asc ''acct'', sn_post_url = url, sn_media_type = mt,
      sn_posted_at = Some 0, sn_d1 = d1, sn_d3 = empty_cols, sn_d7 = d7, sn_d21 = empty_cols\<rparr>"

definition peers :: "nat \<Rightarrow> snapshot list" where
  "peers n = map (\<lambda>i. mk_snap (asc ''p'' @ str_nat i) None (likes_cols (int i))
                         (likes_cols (7 * int i))) [1..<Suc n]"

definition plain_item :: item where
  "plain_item = \<lparr>it_type = None, it_mediaType = None, it_posted_at = Some 0\<rparr>"

definition video_item :: item where
  "video_item = \<lparr>it_type = Some (asc ''Video''), it_mediaType = None, it_posted_at = Some 0\<rparr>"

section \<open>Queues and circuit breaker (db.py)\<close>

datatype job_status = Pending | Running | Retry | Done | Failed | Skipped

text \<open>A row of \<open>run_queue\<close> (the handle queue) and a row of \<open>post_queue\<close>.\<close>

record handle_job =
  hj_id :: int
  hj_subscriber_id :: int
  hj_spreadsheet_id :: ustr
  hj_handle :: ustr
  hj_run_type :: ustr
  hj_status :: job_status
  hj_attempt :: int
  hj_next_run_at :: time
  hj_last_error :: "ustr option"

record post_job =
  pj_id :: int
  pj_subscriber_id :: int
  pj_spreadsheet_id :: ustr
  pj_handle :: ustr
  pj_post_url :: ustr
  pj_checkpoint :: string
  pj_requires_d7_hot :: bool
  pj_attempt :: int
  pj_next_run_at :: time
  pj_status :: job_status
  pj_last_error :: "ustr option"

text \<open>The row \<open>id = 1\<close> of \<open>apify_health\<close>; the table is \<open>None\<close> while the row is missing.\<close>

record health =
  consecutive_failures :: int
  pause_until :: "time option"
  last_error :: "ustr option"

text \<open>
  The database of the worker. The tables \<open>run_log\<close>, \<open>handle_state\<close>, \<open>feeds\<close>,
  \<open>feeders\<close> and \<open>feeder_pair_metrics\<close>, which the worker writes and no function here
  reads, are not part of the model; the statements of \<open>db.py\<close> that the worker runs
  are taken not to raise.
\<close>

record db =
  run_queue :: "handle_job list"
  post_queue :: "post_job list"
  apify_health :: "health option"
  tables :: store

subsection \<open>Handle queue\<close>

text \<open>
  \<open>fetch_next_job\<close>: the ready row that is first by \<open>(next_run_at, id)\<close>, returned as it
  was selected, and the queue with that row set to \<open>running\<close>. One worker is modelled, so
  no row is locked by another.
\<close>

definition fetch_next_job :: "handle_job list \<Rightarrow> time \<Rightarrow> handle_job option \<times> handle_job list" where
  "fetch_next_job q now =
     (case sort_key (\<lambda>j. (hj_next_run_at j, hj_id j))
             (filter (\<lambda>j. (hj_status j = Pending \<or> hj_status j = Retry) \<and> hj_next_run_at j \<le> now) q) of
        [] \<Rightarrow> (None, q)
      | job # _ \<Rightarrow>
          (Some job, map (\<lambda>j. if hj_id j = hj_id job then j\<lparr>hj_status := Running\<rparr> else j) q))"

definition mark_job_success :: "handle_job list \<Rightarrow> int \<Rightarrow> handle_job list" where
  "mark_job_success q job_id =
     map (\<lambda>j. if hj_id j = job_id then j\<lparr>hj_status := Done, hj_last_error := None\<rparr> else j) q"

definition mark_job_retry :: "handle_job list \<Rightarrow> int \<Rightarrow> int \<Rightarrow> time \<Rightarrow> ustr \<Rightarrow> handle_job list" where
  "mark_job_retry q job_id attempt next_run_at error =
     map (\<lambda>j. if hj_id j = job_id
               then j\<lparr>hj_status := Retry, hj_attempt := attempt, hj_next_run_at := next_run_at,
                      hj_last_error := Some (take 1000 error)\<rparr>
               else j) q"

definition mark_job_failed :: "handle_job list \<Rightarrow> int \<Rightarrow> ustr \<Rightarrow> handle_job list" where
  "mark_job_failed q job_id error =
     map (\<lambda>j. if hj_id j = job_id
               then j\<lparr>hj_status := Failed, hj_last_error := Some (take 1000 error)\<rparr> else j) q"

subsection \<open>Post queue\<close>

definition mark_post_job_success :: "post_job list \<Rightarrow> int \<Rightarrow> post_job list" where
  "mark_post_job_success q job_id =
     map (\<lambda>j. if pj_id j = job_id then j\<lparr>pj_status := Done, pj_last_error := None\<rparr> else j) q"

definition mark_post_job_retry :: "post_job list \<Rightarrow> int \<Rightarrow> int \<Rightarrow> time \<Rightarrow> ustr \<Rightarrow> post_job list" where
  "mark_post_job_retry q job_id attempt next_run_at error =
     map (\<lambda>j. if pj_id j = job_id
               then j\<lparr>pj_status := Retry, pj_attempt := attempt, pj_next_run_at := next_run_at,
                      pj_last_error := Some (take 1000 error)\<rparr>
               else j) q"

definition mark_post_job_failed :: "post_job list \<Rightarrow> int \<Rightarrow> ustr \<Rightarrow> post_job list" where
  "mark_post_job_failed q job_id error =
     map (\<lambda>j. if pj_id j = job_id
               then j\<lparr>pj_status := Failed, pj_last_error := Some (take 1000 error)\<rparr> else j) q"

definition mark_post_job_skipped :: "post_job list \<Rightarrow> int \<Rightarrow> ustr \<Rightarrow> post_job list" where
  "mark_post_job_skipped q job_id reason =
     map (\<lambda>j. if pj_id j = job_id
               then j\<lparr>pj_status := Skipped, pj_last_error := Some (take 1000 reason)\<rparr> else j) q"

text \<open>\<open>is_d7_hot\<close>: the tag of the post's signal row holds the fire or the rocket literal.\<close>

definition is_d7_hot :: "signal list \<Rightarrow> int \<Rightarrow> ustr \<Rightarrow> ustr \<Rightarrow> bool" where
  "is_d7_hot tbl subscriber_id handle post_url =
     (case find (\<lambda>r. sg_subscriber_id r = subscriber_id \<and> sg_handle r = handle
                      \<and> sg_post_url r = post_url) tbl of
        None \<Rightarrow> False
      | Some row \<Rightarrow>
          let tag = opt_str_or (sg_velocity_tag row) []
          in py_in TAG_FIRE tag \<or> py_in TAG_ROCKET tag)"

subsection \<open>Circuit breaker\<close>

definition get_apify_pause_until :: "health option \<Rightarrow> time option" where
  "get_apify_pause_until hl = (case hl of None \<Rightarrow> None | Some h \<Rightarrow> pause_until h)"

definition record_apify_success :: "health option \<Rightarrow> health option" where
  "record_apify_success hl =
     map_option (\<lambda>h. h\<lparr>consecutive_failures := 0, pause_until := None, last_error := None\<rparr>) hl"

text \<open>
  \<open>record_apify_failure\<close> returns \<open>(failures, pause_until)\<close>; the second component of the
  model's result is the table afterwards.
\<close>

definition record_apify_failure ::
  "health option \<Rightarrow> time \<Rightarrow> ustr \<Rightarrow> int \<Rightarrow> int \<Rightarrow> (int \<times> time option) \<times> health option" where
  "record_apify_failure hl now error trigger_failures cooldown_hours =
     (case hl of
        None \<Rightarrow> ((0, None), None)
      | Some h \<Rightarrow>
          let h1 = h\<lparr>consecutive_failures := consecutive_failures h + 1,
                      last_error := Some (take 1000 error)\<rparr>;
              failures = consecutive_failures h1
          in if failures \<ge> max 1 trigger_failures
             then let p = now + max 1 cooldown_hours * 3600
                  in ((failures, Some p),
                      Some (h1\<lparr>pause_until := Some p, consecutive_failures := 0\<rparr>))
             else ((failures, None), Some h1))"

section \<open>Worker loop (cli.py)\<close>

text \<open>
  \<open>RETRY_BACKOFF_MINUTES\<close>, \<open>APIFY_COOLDOWN_TRIGGER_FAILURES\<close> and
  \<open>APIFY_COOLDOWN_HOURS\<close> are read from the environment by \<open>config.py\<close>; the worker takes
  them as parameters here.
\<close>

record config =
  retry_backoff_minutes :: "int list"
  cooldown_trigger_failures :: int
  cooldown_hours :: int

text \<open>\<open>xs[i]\<close> with Python's negative indices; \<open>None\<close> is the \<open>IndexError\<close>.\<close>

definition py_nth :: "'a list \<Rightarrow> int \<Rightarrow> 'a option" where
  "py_nth xs i =
     (if 0 \<le> i \<and> i < int (length xs) then Some (xs ! nat i)
      else if - int (length xs) \<le> i \<and> i < 0 then Some (xs ! nat (int (length xs) + i))
      else None)"

definition next_retry_time :: "config \<Rightarrow> time \<Rightarrow> int \<Rightarrow> time option" where
  "next_retry_time cfg now attempt =
     (let idx = min (attempt - 1) (int (length (retry_backoff_minutes cfg)) - 1)
      in map_option (\<lambda>minutes. now + minutes * 60) (py_nth (retry_backoff_minutes cfg) idx))"

text \<open>
  A call of \<open>sync_handle\<close> or \<open>sync_post_checkpoint_batch\<close> as the worker sees it: it
  raised (with the message \<open>_sanitize_error_message\<close> makes of the exception) or it
  returned a value, in both cases leaving the classifier's tables in some state. The
  value of a batch call is the list of post URLs for which \<open>batch_results.get\<close> gives a
  result.
\<close>

datatype 'a outcome = Raised ustr store | Returned 'a store

definition cooldown_active :: "time option \<Rightarrow> time \<Rightarrow> time option" where
  "cooldown_active pause now =
     (case pause of None \<Rightarrow> None | Some p \<Rightarrow> if p > now then Some p else None)"

definition later_of :: "time option \<Rightarrow> time \<Rightarrow> time" where
  "later_of new_pause_until next_time =
     (case new_pause_until of
        None \<Rightarrow> next_time
      | Some p \<Rightarrow> if p > next_time then p else next_time)"

text \<open>
  The body of the loop for a claimed handle job. The result \<open>None\<close> is an exception that
  leaves the loop (an \<open>IndexError\<close> of \<open>_next_retry_time\<close> inside the handler).
\<close>

definition worker_handle_job ::
  "config \<Rightarrow> db \<Rightarrow> time \<Rightarrow> time option \<Rightarrow> handle_job \<Rightarrow> unit outcome \<Rightarrow> db option" where
  "worker_handle_job cfg d now pause job sync =
     (case cooldown_active pause now of
        Some p \<Rightarrow>
          Some (d\<lparr>run_queue := mark_job_retry (run_queue d) (hj_id job) (hj_attempt job) p
                                  (asc ''Apify cooldown active'')\<rparr>)
      | None \<Rightarrow>
          (case sync of
             Returned _ tb \<Rightarrow>
               Some (d\<lparr>tables := tb,
                       apify_health := record_apify_success (apify_health d),
                       run_queue := mark_job_success (run_queue d) (hj_id job)\<rparr>)
           | Raised safe_error tb \<Rightarrow>
               let (res, hl) = record_apify_failure (apify_health d) now safe_error
                                 (cooldown_trigger_failures cfg) (cooldown_hours cfg);
                   new_pause_until = snd res;
                   d = d\<lparr>tables := tb, apify_health := hl\<rparr>;
                   attempt = hj_attempt job + 1
               in if attempt \<le> int (length (retry_backoff_minutes cfg)) then
                    (case next_retry_time cfg now attempt of
                       None \<Rightarrow> None
                     | Some next_time \<Rightarrow>
                         Some (d\<lparr>run_queue := mark_job_retry (run_queue d) (hj_id job) attempt
                                                 (later_of new_pause_until next_time) safe_error\<rparr>))
                  else Some (d\<lparr>run_queue := mark_job_failed (run_queue d) (hj_id job) safe_error\<rparr>)))"

text \<open>
  The three loops over the jobs of a post batch: the loop of the cooldown, and the loops
  after the scrape returned and after it raised, each given by its body for one job.
\<close>

fun cooldown_loop :: "post_job list \<Rightarrow> time \<Rightarrow> post_job list \<Rightarrow> post_job list" where
  "cooldown_loop q p [] = q"
| "cooldown_loop q p (pj # pjs) =
     cooldown_loop (mark_post_job_retry q (pj_id pj) (pj_attempt pj) p (asc ''Apify cooldown active''))
       p pjs"

definition resolve_post_job ::
  "config \<Rightarrow> time \<Rightarrow> signal list \<Rightarrow> ustr list \<Rightarrow> post_job list \<Rightarrow> post_job
   \<Rightarrow> post_job list option" where
  "resolve_post_job cfg now signals results q pj =
     (if pj_checkpoint pj = ''d21'' \<and> pj_requires_d7_hot pj
         \<and> \<not> is_d7_hot signals (pj_subscriber_id pj) (pj_handle pj) (pj_post_url pj)
      then Some (mark_post_job_skipped q (pj_id pj) (asc ''D7 not hot; D21 skipped by gate''))
      else if pj_post_url pj \<notin> set results then
        (let attempt = pj_attempt pj + 1; msg = asc ''Post missing in batch result''
         in if attempt \<le> int (length (retry_backoff_minutes cfg)) then
              (case next_retry_time cfg now attempt of
                 None \<Rightarrow> None
               | Some t \<Rightarrow> Some (mark_post_job_retry q (pj_id pj) attempt t msg))
            else Some (mark_post_job_failed q (pj_id pj) msg))
      else Some (mark_post_job_success q (pj_id pj)))"

fun resolve_loop ::
  "config \<Rightarrow> time \<Rightarrow> signal list \<Rightarrow> ustr list \<Rightarrow> post_job list \<Rightarrow> post_job list
   \<Rightarrow> post_job list option" where
  "resolve_loop cfg now signals results q [] = Some q"
| "resolve_loop cfg now signals results q (pj # pjs) =
     (case resolve_post_job cfg now signals results q pj of
        None \<Rightarrow> None
      | Some q1 \<Rightarrow> resolve_loop cfg now signals results q1 pjs)"

definition fail_post_job ::
  "config \<Rightarrow> time \<Rightarrow> time option \<Rightarrow> ustr \<Rightarrow> post_job list \<Rightarrow> post_job \<Rightarrow> post_job list option" where
  "fail_post_job cfg now new_pause_until safe_error q pj =
     (let attempt = pj_attempt pj + 1
      in if attempt \<le> int (length (retry_backoff_minutes cfg)) then
           (case next_retry_time cfg now attempt of
              None \<Rightarrow> None
            | Some next_time \<Rightarrow>
                Some (mark_post_job_retry q (pj_id pj) attempt (later_of new_pause_until next_time)
                        safe_error))
         else Some (mark_post_job_failed q (pj_id pj) safe_error))"

fun failure_loop ::
  "config \<Rightarrow> time \<Rightarrow> time option \<Rightarrow> ustr \<Rightarrow> post_job list \<Rightarrow> post_job list
   \<Rightarrow> post_job list option" where
  "failure_loop cfg now new_pause_until safe_error q [] = Some q"
| "failure_loop cfg now new_pause_until safe_error q (pj # pjs) =
     (case fail_post_job cfg now new_pause_until safe_error q pj of
        None \<Rightarrow> None
      | Some q1 \<Rightarrow> failure_loop cfg now new_pause_until safe_error q1 pjs)"

text \<open>
  The body of the loop for a claimed, non-empty post batch. An exception of the loop over
  the jobs inside \<open>try\<close> is an \<open>IndexError\<close> of \<open>_next_retry_time\<close>; the handler then meets
  the same job and raises again, so the result is \<open>None\<close> as well.
\<close>

definition worker_post_batch ::
  "config \<Rightarrow> db \<Rightarrow> time \<Rightarrow> time option \<Rightarrow> post_job list \<Rightarrow> ustr list outcome \<Rightarrow> db option" where
  "worker_post_batch cfg d now pause post_jobs sync =
     (case cooldown_active pause now of
        Some p \<Rightarrow> Some (d\<lparr>post_queue := cooldown_loop (post_queue d) p post_jobs\<rparr>)
      | None \<Rightarrow>
          (case sync of
             Returned batch_results tb \<Rightarrow>
               map_option
                 (\<lambda>q. d\<lparr>tables := tb, apify_health := record_apify_success (apify_health d),
                         post_queue := q\<rparr>)
                 (resolve_loop cfg now (post_signals tb) batch_results (post_queue d) post_jobs)
           | Raised safe_error tb \<Rightarrow>
               let (res, hl) = record_apify_failure (apify_health d) now safe_error
                                 (cooldown_trigger_failures cfg) (cooldown_hours cfg)
               in map_option (\<lambda>q. d\<lparr>tables := tb, apify_health := hl, post_queue := q\<rparr>)
                    (failure_loop cfg now (snd res) safe_error (post_queue d) post_jobs)))"

text \<open>
  One turn of the \<open>while True\<close> loop of \<open>worker\<close>. \<open>fetch_batch\<close> stands for
  \<open>fetch_next_post_job_batch\<close>, which \<open>cli.py\<close> imports from \<open>db.py\<close> and \<open>db.py\<close> does
  not define; \<open>sync_handle\<close> and \<open>sync_batch\<close> give the outcome of the scrape for the
  claimed work.
\<close>

definition worker_iteration ::
  "config \<Rightarrow> (post_job list \<Rightarrow> time \<Rightarrow> nat \<Rightarrow> post_job list \<times> post_job list)
   \<Rightarrow> (handle_job \<Rightarrow> store \<Rightarrow> unit outcome) \<Rightarrow> (post_job list \<Rightarrow> store \<Rightarrow> ustr list outcome)
   \<Rightarrow> db \<Rightarrow> time \<Rightarrow> db option" where
  "worker_iteration cfg fetch_batch sync_handle sync_batch d now =
     (let post_batch_size = 10;
          pause = get_apify_pause_until (apify_health d);
          (job, rq) = fetch_next_job (run_queue d) now;
          d = d\<lparr>run_queue := rq\<rparr>
      in case job of
           Some job \<Rightarrow> worker_handle_job cfg d now pause job (sync_handle job (tables d))
         | None \<Rightarrow>
             let (post_jobs, pq) = fetch_batch (post_queue d) now post_batch_size;
                 d = d\<lparr>post_queue := pq\<rparr>
             in if post_jobs = [] then Some d
                else worker_post_batch cfg d now pause post_jobs (sync_batch post_jobs (tables d)))"

text \<open>
  Modelled from the spec: \<open>fetch_next_post_job_batch\<close>, which is missing from \<open>db.py\<close>.
  The spec has it claim up to \<open>N\<close> ready rows that share \<open>(subscriber, handle, checkpoint)\<close>
  and return what is available when fewer are ready; a row is ready as for the single
  fetch (\<open>status\<close> pending or retry, \<open>next_run_at \<le> now\<close>), the order is
  \<open>next_run_at ASC, id ASC\<close>, the key is that of the first ready row, and a claimed row is
  set to \<open>running\<close>.
\<close>

definition fetch_next_post_job_batch ::
  "post_job list \<Rightarrow> time \<Rightarrow> nat \<Rightarrow> post_job list \<times> post_job list" where
  "fetch_next_post_job_batch q now n =
     (case sort_key (\<lambda>j. (pj_next_run_at j, pj_id j))
             (filter (\<lambda>j. (pj_status j = Pending \<or> pj_status j = Retry) \<and> pj_next_run_at j \<le> now) q) of
        [] \<Rightarrow> ([], q)
      | anchor # rest \<Rightarrow>
          let batch = take n (filter (\<lambda>j. pj_subscriber_id j = pj_subscriber_id anchor
                                            \<and> pj_handle j = pj_handle anchor
                                            \<and> pj_checkpoint j = pj_checkpoint anchor)
                                (anchor # rest))
          in (batch,
              map (\<lambda>j. if pj_id j \<in> set (map pj_id batch) then j\<lparr>pj_status := Running\<rparr> else j) q))"

subsection \<open>Vocabulary for the statements about the worker\<close>

text \<open>
  A row \<open>r\<close> of the post queue is settled for the claimed job \<open>pj\<close> when it has left
  \<open>running\<close> for \<open>skipped\<close>, \<open>done\<close> or \<open>failed\<close>, or for \<open>retry\<close> with the attempt of the
  claimed job plus one.
\<close>

definition settled :: "post_job \<Rightarrow> post_job \<Rightarrow> bool" where
  "settled pj r \<longleftrightarrow>
     pj_status r = Skipped \<or> pj_status r = Done \<or> pj_status r = Failed
     \<or> (pj_status r = Retry \<and> pj_attempt r = pj_attempt pj + 1)"

definition post_ready :: "time \<Rightarrow> post_job \<Rightarrow> bool" where
  "post_ready now j \<longleftrightarrow> (pj_status j = Pending \<or> pj_status j = Retry) \<and> pj_next_run_at j \<le> now"

definition batch_key :: "post_job \<Rightarrow> int \<times> ustr \<times> string" where
  "batch_key j = (pj_subscriber_id j, pj_handle j, pj_checkpoint j)"

subsection \<open>A small queue used in the examples\<close>

definition empty_store :: store where
  "empty_store = \<lparr>post_snapshots = [], post_signals = [], post_checkpoint_metrics = []\<rparr>"

definition default_config :: config where
  "default_config = \<lparr>retry_backoff_minutes = [15, 15, 15, 15, 15, 15],
                      cooldown_trigger_failures = 5, cooldown_hours = 3\<rparr>"

definition a_handle_job :: handle_job where
  "a_handle_job = \<lparr>hj_id = 1, hj_subscriber_id = 1, hj_spreadsheet_id = asc ''sheet'',
                    hj_handle = asc ''acct'', hj_run_type = asc ''daily'', hj_status = Pending,
                    hj_attempt = 2, hj_next_run_at = 0, hj_last_error = None\<rparr>"

definition a_post_job :: "int \<Rightarrow> string \<Rightarrow> int \<Rightarrow> post_job" where
  "a_post_job i checkpoint attempt =
     \<lparr>pj_id = i, pj_subscriber_id = 1, pj_spreadsheet_id = asc ''sheet'', pj_handle = asc ''acct'',
      pj_post_url = asc ''p'' @ str_int i, pj_checkpoint = checkpoint,
      pj_requires_d7_hot = (checkpoint = ''d21''), pj_attempt = attempt, pj_next_run_at = 0,
      pj_status = Pending, pj_last_error = None\<rparr>"

definition paused_health :: health where
  "paused_health = \<lparr>consecutive_failures = 0, pause_until = Some 1000, last_error = None\<rparr>"


definition scrape_times_out :: "'a \<Rightarrow> store \<Rightarrow> 'b outcome" where
  "scrape_times_out work tb = Raised (asc ''timeout'') tb"

text \<open>
  The status the loop body \<open>resolve_post_job\<close> gives a job after a scrape that returned,
  read off the job itself.
\<close>

definition resolution :: "config \<Rightarrow> signal list \<Rightarrow> ustr list \<Rightarrow> post_job \<Rightarrow> job_status" where
  "resolution cfg signals results pj =
     (if pj_checkpoint pj = ''d21'' \<and> pj_requires_d7_hot pj
         \<and> \<not> is_d7_hot signals (pj_subscriber_id pj) (pj_handle pj) (pj_post_url pj)
      then Skipped
      else if pj_post_url pj \<in> set results then Done
      else if pj_attempt pj + 1 \<le> int (length (retry_backoff_minutes cfg)) then Retry
      else Failed)"

definition paused_db :: db where
  "paused_db = \<lparr>run_queue = [a_handle_job], post_queue = [], apify_health = Some paused_health,
                 tables = empty_store\<rparr>"

definition three_post_jobs :: "post_job list" where
  "three_post_jobs = [a_post_job 1 ''d3'' 0, a_post_job 2 ''d7'' 0, a_post_job 3 ''d3'' 0]"










section \<open>Alert candidates (db.py)\<close>

text \<open>
  A row of \<open>alert_candidates\<close>. The columns that take no part in the conditions of
  \<open>upsert_alert_candidate\<close> (\<open>ui_tab\<close>, category, colour, urgency, family, the scores,
  body and payload) are carried as one value, taken to be one the database driver accepts.
\<close>

record 'c alert =
  al_feed_id :: int
  al_feeder_id :: "int option"
  al_dedupe_key :: ustr
  al_alert_type :: ustr
  al_title :: ustr
  al_status :: string
  al_created_at :: time
  al_content :: 'c

definition coalesce0 :: "int option \<Rightarrow> int" where
  "coalesce0 v = (case v of None \<Rightarrow> 0 | Some n \<Rightarrow> n)"

text \<open>
  \<open>s.encode("utf-8")\<close>: the bytes of a string; \<open>None\<close> is the \<open>UnicodeEncodeError\<close> that
  a surrogate code point (U+D800 to U+DFFF) raises. The code points of a Python string
  are below \<open>0x110000\<close>.
\<close>

definition utf8_cp :: "nat \<Rightarrow> nat list option" where
  "utf8_cp c =
     (if c < 0x80 then Some [c]
      else if c < 0x800 then Some [0xC0 + c div 64, 0x80 + c mod 64]
      else if 0xD800 \<le> c \<and> c \<le> 0xDFFF then None
      else if c < 0x10000 then Some [0xE0 + c div 4096, 0x80 + c div 64 mod 64, 0x80 + c mod 64]
      else Some [0xF0 + c div 262144, 0x80 + c div 4096 mod 64, 0x80 + c div 64 mod 64,
                 0x80 + c mod 64])"

fun encode_utf8 :: "ustr \<Rightarrow> nat list option" where
  "encode_utf8 [] = Some []"
| "encode_utf8 (c # cs) =
     (case utf8_cp c of
        None \<Rightarrow> None
      | Some b \<Rightarrow> map_option (\<lambda>bs. b @ bs) (encode_utf8 cs))"

text \<open>
  The string that is hashed into the dedupe key. \<open>utc_date now\<close> stands for
  \<open>datetime.now(timezone.utc).strftime("%Y-%m-%d")\<close> at the time \<open>now\<close>, a library
  function taken as a parameter. \<open>feeder_id or 0\<close> is \<open>0\<close> for \<open>None\<close> and for \<open>0\<close>.
\<close>

definition dedupe_base :: "(time \<Rightarrow> ustr) \<Rightarrow> time \<Rightarrow> int \<Rightarrow> int option \<Rightarrow> ustr \<Rightarrow> ustr \<Rightarrow> ustr" where
  "dedupe_base utc_date now feed_id feeder_id alert_type title =
     (let day_bucket = utc_date now
      in str_int feed_id @ asc ''|'' @ str_int (coalesce0 feeder_id) @ asc ''|'' @ alert_type
         @ asc ''|'' @ py_lower (py_strip title) @ asc ''|'' @ day_bucket)"

definition active_status :: "string \<Rightarrow> bool" where
  "active_status s \<longleftrightarrow> s = ''candidate'' \<or> s = ''selected'' \<or> s = ''sent''"

text \<open>
  The exceptions of \<open>upsert_alert_candidate\<close>: of \<open>encode\<close>; of the driver, which refuses
  a text parameter that holds the code point 0; and of the server, see below.
\<close>

datatype alert_error = UnicodeEncodeError | DataError | InvalidColumnReference

text \<open>
  \<open>upsert_alert_candidate\<close>. \<open>sha256_hex bs\<close> stands for \<open>hashlib.sha256(bs).hexdigest()\<close>,
  a library function taken as a parameter; its value is a string of hexadecimal digits.

  The statement ends in \<open>ON CONFLICT (feed_id, alert_dedupe_key) DO NOTHING\<close>, with no
  index predicate. The server takes as arbiter of such a clause a unique index on exactly
  these columns that is not partial, and raises when there is none. The index that
  \<open>init_db\<close> creates on the two columns, \<open>alert_candidates_dedupe_idx\<close>, is partial
  (\<open>WHERE alert_dedupe_key <> ''\<close>). \<open>schema.sql\<close>, which creates the table, is not among
  the sources: \<open>full_unique\<close> says whether the table has a unique constraint or a unique
  index without predicate on \<open>(feed_id, alert_dedupe_key)\<close>. Without one the statement
  raises and the table stays as it is. With one, the row is inserted unless the
  \<open>NOT EXISTS\<close> clause finds a row of the last 24 hours with the same feed, feeder (null
  read as 0), type and title and an active status, or a row with the same feed and key
  exists.
\<close>

definition upsert_alert_candidate ::
  "bool \<Rightarrow> (nat list \<Rightarrow> ustr) \<Rightarrow> (time \<Rightarrow> ustr) \<Rightarrow> 'c alert list \<Rightarrow> time \<Rightarrow> int \<Rightarrow> int option
   \<Rightarrow> ustr \<Rightarrow> ustr \<Rightarrow> 'c \<Rightarrow> alert_error + 'c alert list" where
  "upsert_alert_candidate full_unique sha256_hex utc_date tbl now feed_id feeder_id alert_type
     title content =
     (case encode_utf8 (dedupe_base utc_date now feed_id feeder_id alert_type title) of
        None \<Rightarrow> Inl UnicodeEncodeError
      | Some bs \<Rightarrow>
          let dedupe_key = sha256_hex bs
          in if 0 \<in> set alert_type \<or> 0 \<in> set title then Inl DataError
             else if \<not> full_unique then Inl InvalidColumnReference
             else if \<exists>ac \<in> set tbl. al_feed_id ac = feed_id
                       \<and> coalesce0 (al_feeder_id ac) = coalesce0 feeder_id
                       \<and> al_alert_type ac = alert_type \<and> al_title ac = title
                       \<and> al_created_at ac \<ge> now - 24 * 3600 \<and> active_status (al_status ac)
               then Inr tbl
             else if \<exists>ac \<in> set tbl. al_feed_id ac = feed_id \<and> al_dedupe_key ac = dedupe_key
               then Inr tbl
             else Inr (tbl @ [\<lparr>al_feed_id = feed_id, al_feeder_id = feeder_id,
                               al_dedupe_key = dedupe_key, al_alert_type = alert_type,
                               al_title = title, al_status = ''candidate'',
                               al_created_at = now, al_content = content\<rparr>]))"

text \<open>
  The two dedupe conditions as properties of the table: no two rows with the same feed and
  the same key; no two active rows with the same feed, feeder, type and title created
  within 24 hours of each other.
\<close>

definition same_key :: "'c alert \<Rightarrow> 'c alert \<Rightarrow> bool" where
  "same_key a b \<longleftrightarrow> al_feed_id a = al_feed_id b \<and> al_dedupe_key a = al_dedupe_key b"

definition same_alert_within_day :: "'c alert \<Rightarrow> 'c alert \<Rightarrow> bool" where
  "same_alert_within_day a b \<longleftrightarrow>
     al_feed_id a = al_feed_id b \<and> coalesce0 (al_feeder_id a) = coalesce0 (al_feeder_id b)
     \<and> al_alert_type a = al_alert_type b \<and> al_title a = al_title b
     \<and> active_status (al_status a) \<and> active_status (al_status b)
     \<and> \<bar>al_created_at a - al_created_at b\<bar> \<le> 24 * 3600"

fun no_two :: "('a \<Rightarrow> 'a \<Rightarrow> bool) \<Rightarrow> 'a list \<Rightarrow> bool" where
  "no_two clash [] = True"
| "no_two clash (r # rs) = (list_all (\<lambda>s. \<not> clash r s) rs \<and> no_two clash rs)"

text \<open>Stand-ins for the digest and the date in the examples.\<close>

definition sample_digest :: "nat list \<Rightarrow> ustr" where
  "sample_digest bs = asc ''#'' @ bs"

definition sample_date :: "time \<Rightarrow> ustr" where
  "sample_date now = str_int (now div 86400)"

section \<open>Properties\<close>

subsection \<open>Printing and reading integers\<close>

lemma str_nat_ne: "str_nat n \<noteq> []"
  by (induction n rule: str_nat.induct) (subst str_nat.simps, simp)

lemma parse_str_nat:
  "parse_digits (str_nat n @ cs) 0 k b = parse_digits cs n (k + length (str_nat n)) True"
proof (induction n arbitrary: cs k b rule: str_nat.induct)
  case (1 n)
  show ?case
  proof (cases "n < 10")
    case True
    then have e: "str_nat n = [48 + n]" by (subst str_nat.simps) simp
    show ?thesis unfolding e using True by (simp add: is_digit_def)
  next
    case False
    have d: "is_digit (48 + n mod 10)" by (simp add: is_digit_def)
    have e: "str_nat n = str_nat (n div 10) @ [48 + n mod 10]"
      using False by (subst str_nat.simps) simp
    have "parse_digits (str_nat n @ cs) 0 k b =
          parse_digits (str_nat (n div 10) @ ((48 + n mod 10) # cs)) 0 k b"
      unfolding e by simp
    also have "\<dots> = parse_digits ((48 + n mod 10) # cs) (n div 10)
                        (k + length (str_nat (n div 10))) True"
      using 1[OF False] by simp
    also have "\<dots> = parse_digits cs n (k + length (str_nat (n div 10)) + 1) True"
      using d by simp
    also have "\<dots> = parse_digits cs n (k + length (str_nat n)) True"
      unfolding e by simp
    finally show ?thesis .
  qed
qed

lemma str_nat_length: "length (str_nat n) \<le> n + 1"
proof (induction n rule: str_nat.induct)
  case (1 n)
  show ?case
  proof (cases "n < 10")
    case True
    then show ?thesis by (subst str_nat.simps) simp
  next
    case False
    have "length (str_nat n) = length (str_nat (n div 10)) + 1"
      using False by (subst str_nat.simps) simp
    then show ?thesis using 1[OF False] False by simp
  qed
qed

lemma str_nat_digits: "c \<in> set (str_nat n) \<Longrightarrow> is_digit c"
proof (induction n rule: str_nat.induct)
  case (1 n)
  then show ?case
    by (subst (asm) (2) str_nat.simps) (auto simp: is_digit_def split: if_splits)
qed

lemma dropWhile_hd_id: "s \<noteq> [] \<Longrightarrow> \<not> P (hd s) \<Longrightarrow> dropWhile P s = s"
  by (cases s) auto

lemma strip_id:
  assumes "s \<noteq> []" "\<not> P (hd s)" "\<not> P (last s)"
  shows "rev (dropWhile P (rev (dropWhile P s))) = s"
proof -
  have 1: "dropWhile P s = s"
    using assms by (simp add: dropWhile_hd_id)
  have 2: "dropWhile P (rev s) = rev s"
    using assms by (intro dropWhile_hd_id) (simp_all add: hd_rev)
  show ?thesis by (simp add: 1 2)
qed

lemma str_nat_hd: "is_digit (hd (str_nat n))"
  using str_nat_digits[of "hd (str_nat n)" n] str_nat_ne[of n] by simp

lemma str_nat_last: "is_digit (last (str_nat n))"
  using str_nat_digits[of "last (str_nat n)" n] str_nat_ne[of n] by simp

lemma digit_not_space: "is_digit c \<Longrightarrow> \<not> c_space c"
  by (auto simp: is_digit_def c_space_def)

lemma digit_not_sign: "is_digit c \<Longrightarrow> c \<noteq> 37 \<and> c \<noteq> 45 \<and> c \<noteq> 43"
  by (auto simp: is_digit_def)

lemma digit_to_ascii: "is_digit c \<Longrightarrow> to_ascii_cp c = c"
  by (simp add: is_digit_def to_ascii_cp_def)

lemma str_nat_to_ascii: "map to_ascii_cp (str_nat n) = str_nat n"
  using str_nat_digits digit_to_ascii by (intro map_idI) blast

lemma filter_str_nat: "filter (\<lambda>c. c \<noteq> 37) (str_nat n) = str_nat n"
  using str_nat_digits digit_not_sign by (intro filter_True) blast

lemma parse_str_nat_all:
  assumes "n < max_str_digits"
  shows "parse_digits (str_nat n) 0 0 False = Some n"
proof -
  have "length (str_nat n) \<le> max_str_digits"
    using str_nat_length[of n] assms by simp
  then show ?thesis using parse_str_nat[of n "[]" 0 False] by simp
qed

lemma py_int_str_nat:
  assumes "n < max_str_digits"
  shows "py_int (str_nat n) = Some (int n)"
proof -
  obtain c cs where e: "str_nat n = c # cs"
    using str_nat_ne[of n] by (cases "str_nat n") auto
  have s: "rev (dropWhile c_space (rev (dropWhile c_space (str_nat n)))) = str_nat n"
    using str_nat_ne str_nat_hd str_nat_last digit_not_space by (intro strip_id) auto
  have c: "is_digit c" using str_nat_hd[of n] e by simp
  have p: "parse_digits (c # cs) 0 0 False = Some n"
    using parse_str_nat_all[OF assms] unfolding e .
  show ?thesis
    unfolding py_int_def str_nat_to_ascii s unfolding e
    using digit_not_sign[OF c] p by simp
qed

lemma py_int_str_int:
  assumes "\<bar>i\<bar> < int max_str_digits"
  shows "py_int (str_int i) = Some i"
proof (cases "i < 0")
  case False
  then have "nat i < max_str_digits" using assms by simp
  then show ?thesis using False by (simp add: str_int_def py_int_str_nat)
next
  case True
  have n: "nat (- i) < max_str_digits" using assms True by simp
  have m: "map to_ascii_cp (45 # str_nat (nat (- i))) = 45 # str_nat (nat (- i))"
    by (simp add: str_nat_to_ascii to_ascii_cp_def)
  have ns: "\<not> c_space 45" by (simp add: c_space_def)
  have l: "last (45 # str_nat (nat (- i))) = last (str_nat (nat (- i)))"
    using str_nat_ne by simp
  have s: "rev (dropWhile c_space (rev (dropWhile c_space (45 # str_nat (nat (- i))))))
        = 45 # str_nat (nat (- i))"
    using ns str_nat_last digit_not_space by (intro strip_id) (simp_all add: l)
  show ?thesis
    unfolding str_int_def py_int_def using True
    by (simp only: if_True m s list.case parse_str_nat_all[OF n]) simp
qed

lemma str_int_ne: "str_int i \<noteq> []"
  by (simp add: str_int_def str_nat_ne)

lemma filter_str_int: "filter (\<lambda>c. c \<noteq> 37) (str_int i) = str_int i"
  by (simp add: str_int_def filter_str_nat)

lemma filter_asc_pct: "filter (\<lambda>c. c \<noteq> 37) (asc ''%'') = []"
  by (simp add: asc_def)

lemma velocity_tag_of_int:
  assumes "\<bar>p\<bar> < int max_str_digits"
  shows "velocity_tag (Some (str_int p @ asc ''%'')) =
     (if p \<le> 5 then TAG_ROCKET else if p \<le> 15 then TAG_FIRE
      else if p \<le> 35 then TAG_CHECK else TAG_SLEEPY)"
  unfolding velocity_tag_def
  by (simp add: filter_str_int filter_asc_pct py_int_str_int[OF assms] str_int_ne)

lemma velocity_tag_closed:
  "velocity_tag x \<in> {TAG_ROCKET, TAG_FIRE, TAG_CHECK, TAG_SLEEPY}"
  unfolding velocity_tag_def
  by (simp split: option.split)

subsection \<open>C3: the tag mapping\<close>

lemma velocity_tag_pct:
  "velocity_tag (Some (asc ''3%'')) = TAG_ROCKET"
  "velocity_tag (Some (asc ''10%'')) = TAG_FIRE"
  "velocity_tag (Some (asc ''30%'')) = TAG_CHECK"
  "velocity_tag (Some (asc ''80%'')) = TAG_SLEEPY"
proof -
  have e: "asc ''3%'' = str_int 3 @ asc ''%''" "asc ''10%'' = str_int 10 @ asc ''%''"
    "asc ''30%'' = str_int 30 @ asc ''%''" "asc ''80%'' = str_int 80 @ asc ''%''"
    by (simp_all add: str_int_def str_nat.simps asc_def)
  have b: "\<bar>3\<bar> < int max_str_digits" "\<bar>10\<bar> < int max_str_digits"
    "\<bar>30\<bar> < int max_str_digits" "\<bar>80\<bar> < int max_str_digits"
    by (simp_all add: max_str_digits_def)
  show "velocity_tag (Some (asc ''3%'')) = TAG_ROCKET"
    unfolding e using velocity_tag_of_int[OF b(1)] by simp
  show "velocity_tag (Some (asc ''10%'')) = TAG_FIRE"
    unfolding e using velocity_tag_of_int[OF b(2)] by simp
  show "velocity_tag (Some (asc ''30%'')) = TAG_CHECK"
    unfolding e using velocity_tag_of_int[OF b(3)] by simp
  show "velocity_tag (Some (asc ''80%'')) = TAG_SLEEPY"
    unfolding e using velocity_tag_of_int[OF b(4)] by simp
qed

text \<open>
  C3. The spec draws the tags bit-exactly from the emoji rocket (U+1F680), fire (U+1F525),
  check mark (U+2705) and sleeping face (U+1F634). For the percentiles \<open>3%\<close>, \<open>10%\<close>,
  \<open>30%\<close> and \<open>80%\<close>, one in each band, \<open>_velocity_tag\<close> returns the literal of the band as
  it stands in \<open>sync.py\<close>: the code points that the UTF-8 bytes of the emoji give when they
  are read as Windows-1252, three or four code points where the emoji is one. Whatever
  its argument, \<open>_velocity_tag\<close> returns none of the four emoji.
\<close>

theorem velocity_tag_literals:
  "velocity_tag (Some (asc ''3%'')) = [0xF0, 0x178, 0x161, 0x20AC]
   \<and> velocity_tag (Some (asc ''3%'')) \<noteq> [0x1F680]
   \<and> velocity_tag (Some (asc ''10%'')) = [0xF0, 0x178, 0x201D, 0xA5]
   \<and> velocity_tag (Some (asc ''10%'')) \<noteq> [0x1F525]
   \<and> velocity_tag (Some (asc ''30%'')) = [0xE2, 0x153, 0x2026]
   \<and> velocity_tag (Some (asc ''30%'')) \<noteq> [0x2705]
   \<and> velocity_tag (Some (asc ''80%'')) = [0xF0, 0x178, 0x2DC, 0xB4]
   \<and> velocity_tag (Some (asc ''80%'')) \<noteq> [0x1F634]
   \<and> velocity_tag x \<notin> {[0x1F680], [0x1F525], [0x2705], [0x1F634]}"
proof -
  have "velocity_tag x \<notin> {[0x1F680], [0x1F525], [0x2705], [0x1F634]}"
    using velocity_tag_closed[of x]
    by (auto simp: TAG_ROCKET_def TAG_FIRE_def TAG_CHECK_def TAG_SLEEPY_def)
  then show ?thesis
    unfolding velocity_tag_pct
    by (simp add: TAG_ROCKET_def TAG_FIRE_def TAG_CHECK_def TAG_SLEEPY_def)
qed

subsection \<open>C2: dense-rank percentile\<close>

lemma uniq_desc_eq: "rev (sort (remdups values)) = rev (sorted_list_of_set (set values))"
  by (simp add: sorted_list_of_set_sort_remdups)

lemma rank_loop_first:
  "k < length us \<Longrightarrow> us ! k \<le> v \<Longrightarrow> (\<forall>j<k. \<not> us ! j \<le> v) \<Longrightarrow>
   rank_loop us v i d = i + int k"
proof (induction us arbitrary: k i)
  case Nil
  then show ?case by simp
next
  case (Cons u us)
  show ?case
  proof (cases k)
    case 0
    with Cons.prems show ?thesis by simp
  next
    case (Suc k')
    have nu: "\<not> u \<le> v" using Cons.prems(3) Suc by force
    have "rank_loop us v (i + 1) d = (i + 1) + int k'"
      using Cons.prems Suc by (intro Cons.IH) auto
    then show ?thesis using nu Suc by simp
  qed
qed

lemma rank_loop_none:
  "(\<forall>u \<in> set us. \<not> u \<le> v) \<Longrightarrow> rank_loop us v i d = d"
  by (induction us arbitrary: i) auto

lemma rank_loop_range:
  "rank_loop us v i d = d \<or> (i \<le> rank_loop us v i d \<and> rank_loop us v i d < i + int (length us))"
proof (induction us arbitrary: i)
  case Nil
  then show ?case by simp
next
  case (Cons u us)
  show ?case
    using Cons.IH[of "i + 1"] by auto
qed

lemma py_round_ge: "of_int a \<le> x \<Longrightarrow> a \<le> py_round x"
proof -
  assume "of_int a \<le> x"
  then have "a \<le> \<lfloor>x\<rfloor>" by (simp add: le_floor_iff)
  then show ?thesis by (simp add: py_round_def Let_def)
qed

lemma py_round_le: "x \<le> of_int b \<Longrightarrow> py_round x \<le> b"
proof -
  assume a: "x \<le> of_int b"
  then have f: "\<lfloor>x\<rfloor> \<le> b" by (simp add: floor_le_iff) 
  show ?thesis
  proof (cases "x - of_int \<lfloor>x\<rfloor> < 1 / 2")
    case True
    then show ?thesis using f by (simp add: py_round_def Let_def)
  next
    case False
    then have "x \<noteq> of_int b" by auto
    then have "x < of_int b" using a by simp
    then have "\<lfloor>x\<rfloor> < b" by (simp add: floor_less_iff)
    then show ?thesis by (simp add: py_round_def Let_def)
  qed
qed

lemma py_round_int: "py_round (of_int a) = a"
  by (simp add: py_round_def)

lemma pct_bounds:
  fixes r U :: int
  assumes "1 \<le> r" "r \<le> U" "2 \<le> U"
  shows "1 \<le> py_round (1 + of_int (r - 1) * 99 / of_int (U - 1))"
    and "py_round (1 + of_int (r - 1) * 99 / of_int (U - 1)) \<le> 100"
proof -
  let ?x = "1 + of_int (r - 1) * 99 / (of_int (U - 1) :: rat)"
  have pos: "(0::rat) < of_int (U - 1)" using assms by simp
  have "0 \<le> of_int (r - 1) * 99 / (of_int (U - 1) :: rat)"
    using assms pos by (intro divide_nonneg_pos) auto
  then have "of_int 1 \<le> ?x" by simp
  then show "1 \<le> py_round ?x" by (rule py_round_ge)
  have "(of_int (r - 1) :: rat) \<le> of_int (U - 1)" using assms by simp
  then have "(of_int (r - 1) :: rat) * 99 \<le> 99 * of_int (U - 1)" by simp
  then have "of_int (r - 1) * 99 / (of_int (U - 1) :: rat) \<le> 99"
    using pos by (simp add: pos_divide_le_eq)
  then have "?x \<le> of_int 100" by simp
  then show "py_round ?x \<le> 100" by (rule py_round_le)
qed


lemma percentile_unfold:
  assumes ne: "values \<noteq> []"
    and u: "uniq = rev (sorted_list_of_set (set values))"
    and U: "length uniq \<noteq> 1"
  shows "percentile values v =
    Some (str_int (max 1 (min 100 (py_round (1 + of_int (rank_loop uniq v 1 (int (length uniq)) - 1) * 99
        / of_int (int (length uniq) - 1))))) @ asc ''%'')"
proof -
  have "uniq \<noteq> []" using ne u by simp
  then show ?thesis
    using ne U unfolding percentile_def u uniq_desc_eq by (simp add: Let_def)
qed

lemma percentile_rank:
  assumes ne: "values \<noteq> []"
    and u: "uniq = rev (sorted_list_of_set (set values))"
    and U: "length uniq \<noteq> 1"
    and r: "1 \<le> r" "r \<le> length uniq" "uniq ! (r - 1) \<le> v" "\<forall>j<r - 1. \<not> uniq ! j \<le> v"
  shows "percentile values v =
    Some (str_int (py_round (1 + of_int (int r - 1) * 99 / of_int (int (length uniq) - 1))) @ asc ''%'')"
proof -
  have "rank_loop uniq v 1 (int (length uniq)) = 1 + int (r - 1)"
    using r by (intro rank_loop_first) auto
  then have rk: "rank_loop uniq v 1 (int (length uniq)) = int r" using r by simp
  have U2: "2 \<le> int (length uniq)" using U r by linarith
  have b: "1 \<le> py_round (1 + of_int (int r - 1) * 99 / of_int (int (length uniq) - 1))"
       "py_round (1 + of_int (int r - 1) * 99 / of_int (int (length uniq) - 1)) \<le> 100"
    using pct_bounds[of "int r" "int (length uniq)"] r U2 by simp_all
  show ?thesis
    unfolding percentile_unfold[OF ne u U] rk using b by simp
qed

lemma percentile_in_range:
  assumes ne: "values \<noteq> []"
  shows "\<exists>p. 1 \<le> p \<and> p \<le> 100 \<and> percentile values v = Some (str_int p @ asc ''%'')"
proof -
  define uniq where "uniq = rev (sorted_list_of_set (set values))"
  have une: "uniq \<noteq> []" using ne uniq_def by simp
  show ?thesis
  proof (cases "length uniq = 1")
    case True
    have "percentile values v = Some (asc ''50%'')"
      using ne une True unfolding percentile_def uniq_desc_eq uniq_def by (simp add: Let_def)
    moreover have "asc ''50%'' = str_int 50 @ asc ''%''"
      by (simp add: str_int_def asc_def str_nat.simps)
    ultimately show ?thesis by (intro exI[of _ 50]) simp
  next
    case False
    show ?thesis
      unfolding percentile_unfold[OF ne uniq_def False]
      by (intro exI[of _ "max 1 (min 100 _)"]) simp
  qed
qed


lemma percentile_top:
  assumes ne: "values \<noteq> []"
    and u: "uniq = rev (sorted_list_of_set (set values))"
    and U: "length uniq \<noteq> 1"
    and top: "\<forall>u \<in> set values. u \<le> v"
  shows "percentile values v = Some (asc ''1%'')"
proof -
  have une: "uniq \<noteq> []" using ne u by simp
  then have "uniq ! 0 \<in> set uniq" by (simp add: nth_mem)
  then have "uniq ! 0 \<in> set values" using u by simp
  then have h: "uniq ! 0 \<le> v" using top by blast
  have "percentile values v =
    Some (str_int (py_round (1 + of_int (int 1 - 1) * 99 / of_int (int (length uniq) - 1))) @ asc ''%'')"
    using une h by (intro percentile_rank[OF ne u U]) (simp_all add: Suc_leI)
  then show ?thesis
    by (simp add: py_round_def str_int_def str_nat.simps asc_def)
qed

text \<open>
  C2. For a non-empty pool, let \<open>uniq\<close> be its distinct values in descending order and
  \<open>U\<close> their number. If \<open>U = 1\<close> the result is \<open>50%\<close>. Otherwise, when \<open>r\<close> is the
  1-based index of the first element of \<open>uniq\<close> that is \<open>\<le>\<close> the post's metric per day,
  the result is \<open>round(1 + (r - 1) * 99 / (U - 1))\<close> printed with a percent sign, where
  \<open>round\<close> is that of Python (a tie goes to the even integer). The result is always an
  integer of \<open>[1, 100]\<close> with a percent sign, and a post that reaches every pool value
  gets \<open>1%\<close>.
\<close>

theorem percentile_dense_rank:
  assumes "values \<noteq> []" and "uniq = rev (sorted_list_of_set (set values))"
  shows "(length uniq = 1 \<longrightarrow> percentile values v = Some (asc ''50%''))
    \<and> (length uniq \<noteq> 1 \<longrightarrow>
         (\<forall>r. 1 \<le> r \<and> r \<le> length uniq \<and> uniq ! (r - 1) \<le> v \<and> (\<forall>j<r - 1. \<not> uniq ! j \<le> v) \<longrightarrow>
            percentile values v =
              Some (str_int (py_round (1 + of_int (int r - 1) * 99 / of_int (int (length uniq) - 1)))
                    @ asc ''%'')))
    \<and> (\<exists>p. 1 \<le> p \<and> p \<le> 100 \<and> percentile values v = Some (str_int p @ asc ''%''))
    \<and> (length uniq \<noteq> 1 \<and> (\<forall>u \<in> set values. u \<le> v) \<longrightarrow> percentile values v = Some (asc ''1%''))"
proof (intro conjI impI allI)
  assume "length uniq = 1"
  moreover have "uniq \<noteq> []" using assms by simp
  ultimately show "percentile values v = Some (asc ''50%'')"
    using assms unfolding percentile_def uniq_desc_eq by (simp add: Let_def)
next
  fix r
  assume "length uniq \<noteq> 1"
    and "1 \<le> r \<and> r \<le> length uniq \<and> uniq ! (r - 1) \<le> v \<and> (\<forall>j<r - 1. \<not> uniq ! j \<le> v)"
  then show "percentile values v =
      Some (str_int (py_round (1 + of_int (int r - 1) * 99 / of_int (int (length uniq) - 1))) @ asc ''%'')"
    using percentile_rank[OF assms, of r v] by blast
next
  show "\<exists>p. 1 \<le> p \<and> p \<le> 100 \<and> percentile values v = Some (str_int p @ asc ''%'')"
    using percentile_in_range[OF assms(1)] .
next
  assume "length uniq \<noteq> 1 \<and> (\<forall>u \<in> set values. u \<le> v)"
  then show "percentile values v = Some (asc ''1%'')"
    using percentile_top[OF assms, of v] by blast
qed

lemma pool_sorted_example:
  "rev (sorted_list_of_set (set [100, 80, 80, 60, 40, 30, 20, 10, 5, 2, 1, 0 :: rat])) =
   [100, 80, 60, 40, 30, 20, 10, 5, 2, 1, 0]"
  by (simp add: sorted_list_of_set_sort_remdups)

lemma pool_single_example: "rev (sorted_list_of_set (set [7, 7 :: rat])) = [7]"
  by (simp add: sorted_list_of_set_sort_remdups)

theorem percentile_dense_rank_witness:
  "percentile [100, 80, 80, 60, 40, 30, 20, 10, 5, 2, 1, 0] 80 = Some (asc ''11%'')
   \<and> percentile [7, 7] 3 = Some (asc ''50%'')"
proof -
  have ne: "[100, 80, 80, 60, 40, 30, 20, 10, 5, 2, 1, 0 :: rat] \<noteq> []" by simp
  have len: "length [100, 80, 60, 40, 30, 20, 10, 5, 2, 1, 0 :: rat] \<noteq> 1" by simp
  have r: "1 \<le> (2::nat) \<and> 2 \<le> length [100, 80, 60, 40, 30, 20, 10, 5, 2, 1, 0 :: rat]
      \<and> [100, 80, 60, 40, 30, 20, 10, 5, 2, 1, 0 :: rat] ! (2 - 1) \<le> 80
      \<and> (\<forall>j<2 - 1. \<not> [100, 80, 60, 40, 30, 20, 10, 5, 2, 1, 0 :: rat] ! j \<le> 80)"
    by simp
  have "percentile [100, 80, 80, 60, 40, 30, 20, 10, 5, 2, 1, 0] 80 =
      Some (str_int (py_round (1 + of_int (int 2 - 1) * 99
        / of_int (int (length [100, 80, 60, 40, 30, 20, 10, 5, 2, 1, 0 :: rat]) - 1))) @ asc ''%'')"
    by (rule percentile_dense_rank[OF ne pool_sorted_example[symmetric], of 80,
          THEN conjunct2, THEN conjunct1, rule_format, OF len r])
  moreover have "py_round (1 + of_int (int 2 - 1) * 99
        / of_int (int (length [100, 80, 60, 40, 30, 20, 10, 5, 2, 1, 0 :: rat]) - 1)) = 11"
    by code_simp
  moreover have "str_int 11 @ asc ''%'' = asc ''11%''"
    by (simp add: str_int_def str_nat.simps asc_def)
  ultimately have a: "percentile [100, 80, 80, 60, 40, 30, 20, 10, 5, 2, 1, 0] 80 = Some (asc ''11%'')"
    by simp
  have ne7: "[7, 7 :: rat] \<noteq> []" by simp
  have b: "percentile [7, 7] 3 = Some (asc ''50%'')"
    using percentile_dense_rank[OF ne7 pool_single_example[symmetric], of 3] by simp
  show ?thesis using a b by simp
qed

subsection \<open>C4 and C5: late bloomer, minimum cohort size\<close>

lemma metric_some_days:
  "metric_for_checkpoint snap it cp = Some m \<Longrightarrow> 0 < checkpoint_days cp"
  by (auto simp: metric_for_checkpoint_def cols_of_def checkpoint_days_def split: if_splits)

lemma tag_literals_high:
  "is_high_tag (Some TAG_FIRE)" "is_high_tag (Some TAG_ROCKET)"
  "\<not> is_high_tag (Some TAG_CHECK)" "\<not> is_high_tag (Some TAG_SLEEPY)"
  "\<not> is_high_tag (Some INSUFFICIENT_DATA)" "\<not> is_high_tag None" "\<not> is_high_tag (Some [])"
  by (simp_all add: is_high_tag_def TAG_FIRE_def TAG_ROCKET_def TAG_CHECK_def TAG_SLEEPY_def
        INSUFFICIENT_DATA_def asc_def)

lemma tag_literals_clover:
  "take 5 TAG_FIRE \<noteq> TAG_CLOVER" "take 5 TAG_ROCKET \<noteq> TAG_CLOVER"
  "take 5 TAG_CHECK \<noteq> TAG_CLOVER" "take 5 TAG_SLEEPY \<noteq> TAG_CLOVER"
  "length TAG_CLOVER = 5"
  by (simp_all add: TAG_FIRE_def TAG_ROCKET_def TAG_CHECK_def TAG_SLEEPY_def TAG_CLOVER_def)

lemma velocity_tag_high_iff:
  "is_high_tag (Some (velocity_tag p)) \<longleftrightarrow> velocity_tag p = TAG_FIRE \<or> velocity_tag p = TAG_ROCKET"
  using velocity_tag_closed[of p] tag_literals_high by auto

lemma velocity_tag_no_clover: "take 5 (velocity_tag p) \<noteq> TAG_CLOVER"
  using velocity_tag_closed[of p] tag_literals_clover by auto

lemma from_snapshots_d7:
  assumes m: "metric_for_checkpoint snap it ''d7'' = Some m"
    and n: "20 \<le> length (velocity_pool tbl sid h (snap_media_type snap it) ''d7'')"
  shows "velocity_from_snapshots tbl sid h snap it ''d7'' =
     (percentile (velocity_pool tbl sid h (snap_media_type snap it) ''d7'') (m / 7),
      (let tag7 = velocity_tag (percentile (velocity_pool tbl sid h (snap_media_type snap it) ''d7'') (m / 7))
       in if \<not> is_high_tag (velocity_tag_for_checkpoint tbl sid h (snap_media_type snap it) snap it ''d1'')
             \<and> is_high_tag (Some tag7)
          then TAG_CLOVER @ tag7 else tag7))"
proof -
  have ne: "velocity_pool tbl sid h (snap_media_type snap it) ''d7'' \<noteq> []" using n by auto
  have ge: "\<not> length (velocity_pool tbl sid h (snap_media_type snap it) ''d7'') < min_cohort_size ''d7''"
    using n by (simp add: min_cohort_size_def)
  have d: "checkpoint_days ''d7'' = 7" by (simp add: checkpoint_days_def)
  show ?thesis
    unfolding velocity_from_snapshots_def d using m ne ge by (simp add: Let_def)
qed

lemma d1_absent:
  assumes "c_views (sn_d1 snap) = None" "c_likes (sn_d1 snap) = None" "c_comments (sn_d1 snap) = None"
  shows "velocity_tag_for_checkpoint tbl sid h mt snap it ''d1'' = None"
  using assms
  by (simp add: velocity_tag_for_checkpoint_def metric_for_checkpoint_def cols_of_def checkpoint_days_def)

text \<open>
  C4, as the code has it. For a post classified at \<open>d7\<close> (it has a \<open>d7\<close> metric and its
  pool has at least 20 values), let \<open>tag7\<close> be the tag of its \<open>d7\<close> percentile and \<open>prev\<close>
  the \<open>d1\<close> tag computed from the stored \<open>d1\<close> triple. The emitted tag is \<open>tag7\<close> with the
  clover literal in front exactly when \<open>prev\<close> is not hot and \<open>tag7\<close> is hot (fire or
  rocket), and it is \<open>tag7\<close> itself otherwise. When the \<open>d1\<close> triple is absent, \<open>prev\<close> is
  absent, which counts as not hot: the prefix is then applied exactly when \<open>tag7\<close> is hot.
\<close>

theorem late_bloomer_prefix:
  assumes "metric_for_checkpoint snap it ''d7'' = Some m"
    and "pool = velocity_pool tbl sid h (snap_media_type snap it) ''d7''"
    and "20 \<le> length pool"
    and "tag7 = velocity_tag (percentile pool (m / 7))"
    and "prev = velocity_tag_for_checkpoint tbl sid h (snap_media_type snap it) snap it ''d1''"
    and "velocity_from_snapshots tbl sid h snap it ''d7'' = (pct, tag)"
  shows "pct = percentile pool (m / 7)
    \<and> tag = (if \<not> is_high_tag prev \<and> is_high_tag (Some tag7) then TAG_CLOVER @ tag7 else tag7)
    \<and> (take 5 tag = TAG_CLOVER \<longleftrightarrow> \<not> is_high_tag prev \<and> is_high_tag (Some tag7))
    \<and> (is_high_tag (Some tag7) \<longleftrightarrow> tag7 = TAG_FIRE \<or> tag7 = TAG_ROCKET)
    \<and> (c_views (sn_d1 snap) = None \<and> c_likes (sn_d1 snap) = None \<and> c_comments (sn_d1 snap) = None
         \<longrightarrow> prev = None \<and> (take 5 tag = TAG_CLOVER \<longleftrightarrow> is_high_tag (Some tag7)))"
proof -
  have r: "(pct, tag) = (percentile pool (m / 7),
      if \<not> is_high_tag prev \<and> is_high_tag (Some tag7) then TAG_CLOVER @ tag7 else tag7)"
    using from_snapshots_d7[OF assms(1), of tbl sid h] assms(2-6) by (simp add: Let_def)
  then have p: "pct = percentile pool (m / 7)"
    and t: "tag = (if \<not> is_high_tag prev \<and> is_high_tag (Some tag7) then TAG_CLOVER @ tag7 else tag7)"
    by simp_all
  have nc: "take 5 tag7 \<noteq> TAG_CLOVER" using velocity_tag_no_clover assms(4) by simp
  have c: "take 5 tag = TAG_CLOVER \<longleftrightarrow> \<not> is_high_tag prev \<and> is_high_tag (Some tag7)"
    using t nc tag_literals_clover(5) by simp
  have h: "is_high_tag (Some tag7) \<longleftrightarrow> tag7 = TAG_FIRE \<or> tag7 = TAG_ROCKET"
    using velocity_tag_high_iff assms(4) by simp
  have a: "c_views (sn_d1 snap) = None \<and> c_likes (sn_d1 snap) = None \<and> c_comments (sn_d1 snap) = None
         \<longrightarrow> prev = None \<and> (take 5 tag = TAG_CLOVER \<longleftrightarrow> is_high_tag (Some tag7))"
    using d1_absent[of snap tbl sid h "snap_media_type snap it" it] assms(5) c tag_literals_high(6)
    by auto
  show ?thesis using p t c h a by blast
qed

text \<open>
  C5, as the code has it. When the post has a metric at the checkpoint and its pool is
  smaller than the minimum cohort size (12 for \<open>d1\<close>, 20 for every other checkpoint), the
  classifier returns an empty percentile, with the sentinel \<open>insufficient_data\<close> when the
  pool is not empty and with an empty tag when it is empty.
\<close>

theorem insufficient_data_sentinel:
  assumes "metric_for_checkpoint snap it cp = Some m"
    and "pool = velocity_pool tbl sid h (snap_media_type snap it) cp"
    and "length pool < min_cohort_size cp"
  shows "velocity_from_snapshots tbl sid h snap it cp =
           (None, if pool = [] then [] else INSUFFICIENT_DATA)
    \<and> min_cohort_size cp = (if cp = ''d1'' then 12 else 20)"
proof -
  have d: "\<not> checkpoint_days cp \<le> 0" using metric_some_days[OF assms(1)] by simp
  show ?thesis
    unfolding velocity_from_snapshots_def using d assms
    by (simp add: Let_def min_cohort_size_def)
qed


subsection \<open>Evaluation on the example account\<close>

lemma upt_peers19: "[1..<Suc 19] = [1,2,3,4,5,6,7,8,9,10,11,12,13,14,15,16,17,18,19]"
  by (simp add: upt_rec)

lemma upt_peers10: "[1..<Suc 10] = [1,2,3,4,5,6,7,8,9,10]"
  by (simp add: upt_rec)

lemmas pool_eval =
  velocity_pool_def checkpoint_days_def cols_of_def pool_rows_def mk_snap_def likes_cols_def
  pool_skips_def metric_value_def py_lower_def opt_str_or_def asc_def int_or0_def empty_cols_def

lemma pool_late:
  "velocity_pool (peers 19 @ [mk_snap (asc ''own'') None empty_cols (likes_cols 7000)]) 1
     (asc ''acct'') [] ''d7''
   = [1,2,3,4,5,6,7,8,9,10,11,12,13,14,15,16,17,18,19,1000]"
  unfolding peers_def upt_peers19 by (simp add: pool_eval)

lemma smt_plain: "snap_media_type (mk_snap u None a b) plain_item = []"
  by (simp add: snap_media_type_def mk_snap_def plain_item_def item_type_def opt_str_or_def py_lower_def)

lemma metric_plain_d7:
  "metric_for_checkpoint (mk_snap u None a (likes_cols n)) plain_item ''d7'' = Some (of_int n)"
  by (simp add: metric_for_checkpoint_def cols_of_def mk_snap_def likes_cols_def plain_item_def
        item_type_def opt_str_or_def metric_value_def py_lower_def asc_def int_or0_def)

lemma metric_plain_d1:
  "metric_for_checkpoint (mk_snap u None (likes_cols n) b) plain_item ''d1'' = Some (of_int n)"
  by (simp add: metric_for_checkpoint_def cols_of_def mk_snap_def likes_cols_def plain_item_def
        item_type_def opt_str_or_def metric_value_def py_lower_def asc_def int_or0_def)

lemma metric_plain_none:
  "metric_for_checkpoint (mk_snap u None empty_cols b) plain_item ''d1'' = None"
  by (simp add: metric_for_checkpoint_def cols_of_def mk_snap_def empty_cols_def)

lemma pct_late:
  "percentile [1,2,3,4,5,6,7,8,9,10,11,12,13,14,15,16,17,18,19,1000] (7000 / 7) = Some (asc ''1%'')"
proof -
  have u: "rev (sorted_list_of_set (set [1,2,3,4,5,6,7,8,9,10,11,12,13,14,15,16,17,18,19,1000::rat]))
      = [1000,19,18,17,16,15,14,13,12,11,10,9,8,7,6,5,4,3,2,1]"
    by (simp add: sorted_list_of_set_sort_remdups)
  show ?thesis
    by (rule percentile_top[OF _ u[symmetric]]) simp_all
qed

lemma tag_one_pct: "velocity_tag (Some (asc ''1%'')) = TAG_ROCKET"
proof -
  have "asc ''1%'' = str_int 1 @ asc ''%''"
    by (simp add: str_int_def str_nat.simps asc_def)
  then show ?thesis using velocity_tag_of_int[of 1] by (simp add: max_str_digits_def)
qed

text \<open>
  C4 as stated fails: a post whose \<open>d1\<close> triple was never written and whose \<open>d7\<close> value
  tops a pool of 20 gets the clover prefix.
\<close>

theorem late_bloomer_absent_d1_counterexample:
  "c_views (sn_d1 (mk_snap (asc ''own'') None empty_cols (likes_cols 7000))) = None
   \<and> c_likes (sn_d1 (mk_snap (asc ''own'') None empty_cols (likes_cols 7000))) = None
   \<and> c_comments (sn_d1 (mk_snap (asc ''own'') None empty_cols (likes_cols 7000))) = None
   \<and> velocity_from_snapshots (peers 19 @ [mk_snap (asc ''own'') None empty_cols (likes_cols 7000)])
        1 (asc ''acct'') (mk_snap (asc ''own'') None empty_cols (likes_cols 7000)) plain_item ''d7''
      = (Some (asc ''1%''), TAG_CLOVER @ TAG_ROCKET)"
proof -
  let ?own = "mk_snap (asc ''own'') None empty_cols (likes_cols 7000)"
  have a: "c_views (sn_d1 ?own) = None" "c_likes (sn_d1 ?own) = None" "c_comments (sn_d1 ?own) = None"
    by (simp_all add: mk_snap_def empty_cols_def)
  have n: "20 \<le> length (velocity_pool (peers 19 @ [?own]) 1 (asc ''acct'')
              (snap_media_type ?own plain_item) ''d7'')"
    unfolding smt_plain pool_late by simp
  have prev: "velocity_tag_for_checkpoint (peers 19 @ [?own]) 1 (asc ''acct'')
                (snap_media_type ?own plain_item) ?own plain_item ''d1'' = None"
    by (rule d1_absent[OF a])
  have "velocity_from_snapshots (peers 19 @ [?own]) 1 (asc ''acct'') ?own plain_item ''d7''
      = (Some (asc ''1%''), TAG_CLOVER @ TAG_ROCKET)"
    unfolding from_snapshots_d7[OF metric_plain_d7 n] prev
    unfolding smt_plain pool_late
    using pct_late by (simp add: tag_one_pct tag_literals_high)
  then show ?thesis using a by simp
qed

theorem late_bloomer_prefix_witness:
  "snd (velocity_from_snapshots (peers 19 @ [mk_snap (asc ''own'') None empty_cols (likes_cols 7000)])
        1 (asc ''acct'') (mk_snap (asc ''own'') None empty_cols (likes_cols 7000)) plain_item ''d7'')
   = TAG_CLOVER @ TAG_ROCKET"
proof -
  let ?own = "mk_snap (asc ''own'') None empty_cols (likes_cols 7000)"
  let ?pool = "[1,2,3,4,5,6,7,8,9,10,11,12,13,14,15,16,17,18,19,1000::rat]"
  have p: "?pool = velocity_pool (peers 19 @ [?own]) 1 (asc ''acct'') (snap_media_type ?own plain_item) ''d7''"
    unfolding smt_plain pool_late by simp
  have n: "20 \<le> length ?pool" by simp
  have a: "c_views (sn_d1 ?own) = None" "c_likes (sn_d1 ?own) = None" "c_comments (sn_d1 ?own) = None"
    by (simp_all add: mk_snap_def empty_cols_def)
  have prev: "velocity_tag_for_checkpoint (peers 19 @ [?own]) 1 (asc ''acct'')
                (snap_media_type ?own plain_item) ?own plain_item ''d1'' = None"
    by (rule d1_absent[OF a])
  note T = late_bloomer_prefix[OF metric_plain_d7 p n refl refl surjective_pairing]
  have "snd (velocity_from_snapshots (peers 19 @ [?own]) 1 (asc ''acct'') ?own plain_item ''d7'')
      = (if \<not> is_high_tag None \<and> is_high_tag (Some (velocity_tag (percentile ?pool (of_int 7000 / 7))))
         then TAG_CLOVER @ velocity_tag (percentile ?pool (of_int 7000 / 7))
         else velocity_tag (percentile ?pool (of_int 7000 / 7)))"
    using T[THEN conjunct2, THEN conjunct1] unfolding prev .
  then show ?thesis
    using pct_late by (simp add: tag_one_pct tag_literals_high)
qed


lemma pool_small:
  "velocity_pool (peers 10 @ [mk_snap (asc ''own'') None (likes_cols 5) empty_cols]) 1
     (asc ''acct'') [] ''d1''
   = [1,2,3,4,5,6,7,8,9,10,5]"
  unfolding peers_def upt_peers10 by (simp add: pool_eval)

lemma pool_small_absent:
  "velocity_pool (peers 10 @ [mk_snap (asc ''own'') None empty_cols empty_cols]) 1
     (asc ''acct'') [] ''d1''
   = [1,2,3,4,5,6,7,8,9,10]"
  unfolding peers_def upt_peers10 by (simp add: pool_eval)

lemma pool_empty: "velocity_pool [] sid h mt ''d1'' = []"
  by (simp add: velocity_pool_def checkpoint_days_def cols_of_def pool_rows_def)

text \<open>
  C5 as stated fails: with an empty pool, and with a pool of 10 for a post that has no
  \<open>d1\<close> metric, the tag is empty, not the sentinel.
\<close>

theorem insufficient_data_counterexample:
  "length (velocity_pool [] 1 (asc ''acct'') [] ''d1'') < min_cohort_size ''d1''
   \<and> velocity_from_snapshots [] 1 (asc ''acct'')
        (mk_snap (asc ''own'') None (likes_cols 5) empty_cols) plain_item ''d1'' = (None, [])
   \<and> length (velocity_pool (peers 10 @ [mk_snap (asc ''own'') None empty_cols empty_cols]) 1
        (asc ''acct'') [] ''d1'') < min_cohort_size ''d1''
   \<and> velocity_from_snapshots (peers 10 @ [mk_snap (asc ''own'') None empty_cols empty_cols]) 1
        (asc ''acct'') (mk_snap (asc ''own'') None empty_cols empty_cols) plain_item ''d1''
      = (None, [])
   \<and> [] \<noteq> INSUFFICIENT_DATA"
proof -
  have 1: "length (velocity_pool [] 1 (asc ''acct'') [] ''d1'') < min_cohort_size ''d1''"
    by (simp add: pool_empty min_cohort_size_def)
  have 2: "velocity_from_snapshots [] 1 (asc ''acct'')
        (mk_snap (asc ''own'') None (likes_cols 5) empty_cols) plain_item ''d1'' = (None, [])"
    unfolding velocity_from_snapshots_def
    by (simp add: pool_empty metric_plain_d1 checkpoint_days_def)
  have 3: "length (velocity_pool (peers 10 @ [mk_snap (asc ''own'') None empty_cols empty_cols]) 1
        (asc ''acct'') [] ''d1'') < min_cohort_size ''d1''"
    unfolding pool_small_absent by (simp add: min_cohort_size_def)
  have 4: "velocity_from_snapshots (peers 10 @ [mk_snap (asc ''own'') None empty_cols empty_cols]) 1
        (asc ''acct'') (mk_snap (asc ''own'') None empty_cols empty_cols) plain_item ''d1''
      = (None, [])"
    unfolding velocity_from_snapshots_def
    by (simp add: metric_plain_none checkpoint_days_def)
  have 5: "[] \<noteq> INSUFFICIENT_DATA" by (simp add: INSUFFICIENT_DATA_def asc_def)
  show ?thesis using 1 2 3 4 5 by blast
qed

theorem insufficient_data_sentinel_witness:
  "velocity_from_snapshots (peers 10 @ [mk_snap (asc ''own'') None (likes_cols 5) empty_cols]) 1
     (asc ''acct'') (mk_snap (asc ''own'') None (likes_cols 5) empty_cols) plain_item ''d1''
   = (None, INSUFFICIENT_DATA)"
proof -
  let ?own = "mk_snap (asc ''own'') None (likes_cols 5) empty_cols"
  have p: "[1,2,3,4,5,6,7,8,9,10,5] =
      velocity_pool (peers 10 @ [?own]) 1 (asc ''acct'') (snap_media_type ?own plain_item) ''d1''"
    unfolding smt_plain pool_small by simp
  have n: "length [1,2,3,4,5,6,7,8,9,10,5::rat] < min_cohort_size ''d1''"
    by (simp add: min_cohort_size_def)
  show ?thesis
    using insufficient_data_sentinel[OF metric_plain_d1 p n] by simp
qed

subsection \<open>C10: the classified post is part of its cohort pool\<close>

lemma py_in_refl: "py_in x x"
  by (cases x) auto

lemma pool_loop_map:
  "pool_loop rows mt sel days =
     map (\<lambda>r. metric_value (py_lower (opt_str_or (sn_media_type r) []))
                 (c_views (sel r)) (c_likes (sel r)) (c_comments (sel r)) / of_int days)
         (filter (\<lambda>r. \<not> pool_skips mt (py_lower (opt_str_or (sn_media_type r) []))) rows)"
  by (induction rows) (auto simp: Let_def)

lemma own_not_skipped:
  "\<not> pool_skips (snap_media_type own it) (py_lower (opt_str_or (sn_media_type own) []))"
proof (cases "opt_str_or (sn_media_type own) [] = []")
  case True
  then show ?thesis by (simp add: pool_skips_def py_lower_def)
next
  case False
  then have "opt_str_or (sn_media_type own) (item_type it) = opt_str_or (sn_media_type own) []"
    by (auto simp: opt_str_or_def split: option.splits if_splits)
  then show ?thesis
    by (simp add: pool_skips_def snap_media_type_def py_in_refl)
qed

lemma set_cols_key [simp]: "snap_key (set_cols cp f r) = snap_key r"
  by (simp add: set_cols_def snap_key_def)

lemma set_cols_sel: "cols_of cp = Some sel \<Longrightarrow> sel (set_cols cp f r) = f (sel r)"
  by (auto simp: cols_of_def set_cols_def split: if_splits)

lemma media_type_key [simp]: "snap_key (r\<lparr>sn_media_type := x\<rparr>) = snap_key r"
  by (simp add: snap_key_def)

lemma map_key_update:
  "map snap_key (map (\<lambda>r. if snap_key r = k then set_cols cp f (r\<lparr>sn_media_type := g r\<rparr>) else r) xs)
   = map snap_key xs"
  by (induction xs) auto

lemma upsert_keys:
  "map snap_key (upsert_snapshot tbl now sid h url mt posted cp v l c) =
     (if (sid, h, url) \<in> snap_key ` set tbl then map snap_key tbl
      else map snap_key tbl @ [(sid, h, url)])"
proof -
  have n: "\<And>m. snap_key \<lparr>sn_subscriber_id = sid, sn_handle = h, sn_post_url = url, sn_media_type = m,
      sn_posted_at = posted, sn_d1 = empty_cols, sn_d3 = empty_cols, sn_d7 = empty_cols,
      sn_d21 = empty_cols\<rparr> = (sid, h, url)"
    by (simp add: snap_key_def)
  have e: "(\<exists>r \<in> set tbl. snap_key r = (sid, h, url)) \<longleftrightarrow> (sid, h, url) \<in> snap_key ` set tbl"
    by (force simp: image_iff)
  show ?thesis
    unfolding upsert_snapshot_def Let_def e
    by (simp add: map_key_update n del: map_map)
qed

lemma upsert_distinct:
  "distinct (map snap_key tbl) \<Longrightarrow>
   distinct (map snap_key (upsert_snapshot tbl now sid h url mt posted cp v l c))"
  unfolding upsert_keys by auto

lemma upsert_has_key:
  "(sid, h, url) \<in> snap_key ` set (upsert_snapshot tbl now sid h url mt posted cp v l c)"
proof -
  have "(sid, h, url) \<in> set (map snap_key (upsert_snapshot tbl now sid h url mt posted cp v l c))"
    unfolding upsert_keys by auto
  then show ?thesis by simp
qed

lemma upsert_cols:
  assumes "cols_of cp = Some sel"
    and "r \<in> set (upsert_snapshot tbl now sid h url mt posted cp v l c)"
    and "snap_key r = (sid, h, url)"
  shows "c_views (sel r) = v \<and> c_likes (sel r) = l \<and> c_comments (sel r) = c"
  using assms unfolding upsert_snapshot_def Let_def
  by (auto simp: set_cols_sel split: if_splits)

lemma find_key:
  "k \<in> f ` set xs \<Longrightarrow> \<exists>x. find (\<lambda>r. f r = k) xs = Some x \<and> x \<in> set xs \<and> f x = k"
  by (induction xs) auto

lemma filter_key_single:
  "distinct (map f xs) \<Longrightarrow> x \<in> set xs \<Longrightarrow> filter (\<lambda>r. f r = f x) xs = [x]"
proof (induction xs)
  case Nil
  then show ?case by simp
next
  case (Cons a xs)
  show ?case
  proof (cases "a = x")
    case True
    have "\<forall>r \<in> set xs. f r \<noteq> f x" using Cons.prems True by (force simp: image_iff)
    then have "filter (\<lambda>r. f r = f x) xs = []" by (simp add: filter_empty_conv)
    then show ?thesis using True by simp
  next
    case False
    then have "x \<in> set xs" using Cons.prems by simp
    moreover have "f a \<noteq> f x" using Cons.prems calculation by auto
    ultimately show ?thesis using Cons by simp
  qed
qed

lemma length_filter_split:
  "length (filter P (filter Q xs)) =
     length (filter P (filter Q (filter (\<lambda>r. f r \<noteq> k) xs)))
     + length (filter P (filter Q (filter (\<lambda>r. f r = k) xs)))"
  by (induction xs) auto


lemma from_snapshots_classified:
  assumes "metric_for_checkpoint snap it cp = Some m"
    and "pool = velocity_pool tbl sid h (snap_media_type snap it) cp"
    and "pool \<noteq> []" and "\<not> length pool < min_cohort_size cp"
  shows "fst (velocity_from_snapshots tbl sid h snap it cp) = percentile pool (m / of_int (checkpoint_days cp))
    \<and> (snd (velocity_from_snapshots tbl sid h snap it cp) = velocity_tag (percentile pool (m / of_int (checkpoint_days cp)))
       \<or> snd (velocity_from_snapshots tbl sid h snap it cp)
            = TAG_CLOVER @ velocity_tag (percentile pool (m / of_int (checkpoint_days cp))))"
proof -
  have d: "\<not> checkpoint_days cp \<le> 0" using metric_some_days[OF assms(1)] by simp
  show ?thesis
    unfolding velocity_from_snapshots_def using d assms
    by (simp add: Let_def)
qed

lemma sentinel_not_tag:
  "velocity_tag p \<noteq> INSUFFICIENT_DATA" "TAG_CLOVER @ t \<noteq> INSUFFICIENT_DATA"
proof -
  have "INSUFFICIENT_DATA \<notin> {TAG_ROCKET, TAG_FIRE, TAG_CHECK, TAG_SLEEPY}"
    by (simp add: INSUFFICIENT_DATA_def asc_def TAG_ROCKET_def TAG_FIRE_def TAG_CHECK_def TAG_SLEEPY_def)
  then show "velocity_tag p \<noteq> INSUFFICIENT_DATA"
    using velocity_tag_closed[of p] by metis
  show "TAG_CLOVER @ t \<noteq> INSUFFICIENT_DATA"
    by (simp add: INSUFFICIENT_DATA_def asc_def TAG_CLOVER_def)
qed

text \<open>
  C10, as the code has it. After \<open>upsert_snapshot\<close> has written a post's metrics (not
  all three null) at a checkpoint of the field map, into a table with one row per post:
  the post has a row, the pool query selects it, and the post's metric at the checkpoint
  is the one \<open>_metric_value\<close> computes from the scraped item's type. The pool built for
  the post holds the value of the post's own row, computed with the media type stored on
  that row, and has one value more than the pool of the other posts: a post with exactly
  minimum-minus-one peers is classified (a percentile in \<open>[1,100]\<close>, no sentinel tag).
  The post's own metric per day is in the pool whenever the item's type and the stored
  media type select the same metric.
\<close>

theorem own_row_in_pool:
  assumes "distinct (map snap_key tbl)"
    and "cols_of cp = Some sel"
    and "views \<noteq> None \<or> likes \<noteq> None \<or> comments \<noteq> None"
    and "tbl' = upsert_snapshot tbl now sid h url mt posted cp views likes comments"
  shows "\<exists>own. get_snapshots tbl' sid h url = Some own
      \<and> own \<in> set (pool_rows tbl' sid h sel)
      \<and> metric_for_checkpoint own it cp = Some (metric_value (item_type it) views likes comments)
      \<and> (let pool = velocity_pool tbl' sid h (snap_media_type own it) cp;
              peers = velocity_pool (filter (\<lambda>r. snap_key r \<noteq> (sid, h, url)) tbl') sid h
                        (snap_media_type own it) cp;
              own_mt = py_lower (opt_str_or (sn_media_type own) []);
              days = (of_int (checkpoint_days cp) :: rat)
          in metric_value own_mt views likes comments / days \<in> set pool
           \<and> length pool = length peers + 1
           \<and> (metric_value (item_type it) views likes comments
                  = metric_value own_mt views likes comments
                \<longrightarrow> metric_value (item_type it) views likes comments / days \<in> set pool)
           \<and> (length peers + 1 = min_cohort_size cp \<longrightarrow>
                 (\<exists>p. 1 \<le> p \<and> p \<le> 100
                      \<and> fst (velocity_from_snapshots tbl' sid h own it cp) = Some (str_int p @ asc ''%''))
                 \<and> snd (velocity_from_snapshots tbl' sid h own it cp) \<noteq> INSUFFICIENT_DATA))"
proof -
  let ?k = "(sid, h, url)"
  have hk: "?k \<in> snap_key ` set tbl'" unfolding assms(4) by (rule upsert_has_key)
  obtain own where f: "find (\<lambda>r. snap_key r = ?k) tbl' = Some own"
    and mem: "own \<in> set tbl'" and key: "snap_key own = ?k"
    using find_key[OF hk] by blast
  have g: "get_snapshots tbl' sid h url = Some own"
    using f by (simp add: get_snapshots_def)
  have cols: "c_views (sel own) = views \<and> c_likes (sel own) = likes \<and> c_comments (sel own) = comments"
    using upsert_cols[OF assms(2) _ key] mem unfolding assms(4) by blast
  have kk: "sn_subscriber_id own = sid \<and> sn_handle own = h"
    using key by (simp add: snap_key_def)
  have inq: "own \<in> set (pool_rows tbl' sid h sel)"
    using mem cols kk assms(3) by (auto simp: pool_rows_def)
  have met: "metric_for_checkpoint own it cp = Some (metric_value (item_type it) views likes comments)"
    using assms(2,3) cols by (auto simp: metric_for_checkpoint_def)
  have dpos: "\<not> checkpoint_days cp \<le> 0" using metric_some_days[OF met] by simp
  let ?mt = "snap_media_type own it"
  let ?val = "\<lambda>r. metric_value (py_lower (opt_str_or (sn_media_type r) []))
                 (c_views (sel r)) (c_likes (sel r)) (c_comments (sel r)) / of_int (checkpoint_days cp)"
  let ?keep = "\<lambda>r. \<not> pool_skips ?mt (py_lower (opt_str_or (sn_media_type r) []))"
  let ?inq = "\<lambda>r. sn_subscriber_id r = sid \<and> sn_handle r = h
                 \<and> (c_views (sel r) \<noteq> None \<or> c_likes (sel r) \<noteq> None \<or> c_comments (sel r) \<noteq> None)"
  have pool_eq: "\<And>t. velocity_pool t sid h ?mt cp = map ?val (filter ?keep (filter ?inq t))"
    using dpos assms(2) by (simp add: velocity_pool_def pool_loop_map pool_rows_def Let_def)
  have keep: "?keep own" by (rule own_not_skipped)
  have "own \<in> set (filter ?keep (filter ?inq tbl'))"
    using mem keep cols kk assms(3) by auto
  then have "?val own \<in> ?val ` set (filter ?keep (filter ?inq tbl'))"
    by (rule imageI)
  then have own_in: "?val own \<in> set (velocity_pool tbl' sid h ?mt cp)"
    unfolding pool_eq by simp
  have dist: "distinct (map snap_key tbl')"
    unfolding assms(4) using assms(1) by (rule upsert_distinct)
  have single: "filter (\<lambda>r. snap_key r = ?k) tbl' = [own]"
    using filter_key_single[OF dist mem] key by simp
  have P: "(?keep own \<and> ?inq own)" using keep cols kk assms(3) by auto
  have len: "length (velocity_pool tbl' sid h ?mt cp)
      = length (velocity_pool (filter (\<lambda>r. snap_key r \<noteq> ?k) tbl') sid h ?mt cp) + 1"
  proof -
    have "length (filter ?keep (filter ?inq tbl')) =
        length (filter ?keep (filter ?inq (filter (\<lambda>r. snap_key r \<noteq> ?k) tbl')))
        + length (filter ?keep (filter ?inq (filter (\<lambda>r. snap_key r = ?k) tbl')))"
      by (rule length_filter_split)
    also have "\<dots> = length (filter ?keep (filter ?inq (filter (\<lambda>r. snap_key r \<noteq> ?k) tbl'))) + 1"
      unfolding single using P by simp
    finally show ?thesis unfolding pool_eq length_map .
  qed
  have ne: "velocity_pool tbl' sid h ?mt cp \<noteq> []" using len by auto
  have thr: "length (velocity_pool (filter (\<lambda>r. snap_key r \<noteq> ?k) tbl') sid h ?mt cp) + 1 = min_cohort_size cp
      \<Longrightarrow> (\<exists>p. 1 \<le> p \<and> p \<le> 100
                \<and> fst (velocity_from_snapshots tbl' sid h own it cp) = Some (str_int p @ asc ''%''))
          \<and> snd (velocity_from_snapshots tbl' sid h own it cp) \<noteq> INSUFFICIENT_DATA"
  proof -
    assume "length (velocity_pool (filter (\<lambda>r. snap_key r \<noteq> ?k) tbl') sid h ?mt cp) + 1 = min_cohort_size cp"
    then have ge: "\<not> length (velocity_pool tbl' sid h ?mt cp) < min_cohort_size cp"
      using len by simp
    note C = from_snapshots_classified[OF met refl ne ge]
    have "\<exists>p. 1 \<le> p \<and> p \<le> 100 \<and> fst (velocity_from_snapshots tbl' sid h own it cp) = Some (str_int p @ asc ''%'')"
      using C percentile_in_range[OF ne] by simp
    moreover have "snd (velocity_from_snapshots tbl' sid h own it cp) \<noteq> INSUFFICIENT_DATA"
      using C sentinel_not_tag by metis
    ultimately show ?thesis by blast
  qed
  have vo: "?val own = metric_value (py_lower (opt_str_or (sn_media_type own) [])) views likes comments
      / of_int (checkpoint_days cp)"
    using cols by simp
  show ?thesis
    apply (rule exI[of _ own])
    using g inq met own_in len thr unfolding vo Let_def
    by auto
qed


lemma upt_peers11: "[1..<Suc 11] = [1,2,3,4,5,6,7,8,9,10,11]"
  by (simp add: upt_rec)

lemma peers_keys: "(1, asc ''acct'', asc ''own'') \<notin> snap_key ` set (peers n)"
  by (auto simp: peers_def mk_snap_def snap_key_def asc_def)

lemma peers11_distinct: "distinct (map snap_key (peers 11))"
  unfolding peers_def upt_peers11
  by (simp add: mk_snap_def snap_key_def asc_def str_nat.simps)

lemma upsert_fresh_d1:
  "(1, asc ''acct'', asc ''own'') \<notin> snap_key ` set tbl \<Longrightarrow>
   upsert_snapshot tbl 0 1 (asc ''acct'') (asc ''own'') (Some []) (Some 0) ''d1'' None (Some n) None
   = tbl @ [mk_snap (asc ''own'') (Some []) (likes_cols n) empty_cols]"
proof -
  assume a: "(1, asc ''acct'', asc ''own'') \<notin> snap_key ` set tbl"
  then have n: "\<not> (\<exists>r \<in> set tbl. snap_key r = (1, asc ''acct'', asc ''own''))"
    by (force simp: image_iff)
  have m: "map (\<lambda>r. if snap_key r = (1, asc ''acct'', asc ''own'') then f r else r) tbl = tbl" for f
    using n by (induction tbl) auto
  have new: "snap_key \<lparr>sn_subscriber_id = a1, sn_handle = a2, sn_post_url = a3,
      sn_media_type = a4, sn_posted_at = a5, sn_d1 = a6, sn_d3 = a7,
      sn_d7 = a8, sn_d21 = a9\<rparr> = (a1, a2, a3)" for a1 a2 a3 a4 a5 a6 a7 a8 a9
    by (simp add: snap_key_def)
  show ?thesis
    unfolding upsert_snapshot_def Let_def using n
    by (simp add: m new cols_of_def set_cols_def mk_snap_def likes_cols_def empty_cols_def
          coalesce_def)
qed

lemma find_app:
  "find P (xs @ ys) = (case find P xs of None \<Rightarrow> find P ys | Some x \<Rightarrow> Some x)"
  by (induction xs) auto

lemma filter_peers_own:
  "filter (\<lambda>r. snap_key r \<noteq> (1, asc ''acct'', asc ''own''))
     (peers n @ [mk_snap (asc ''own'') mt a b]) = peers n"
proof -
  have "\<forall>r \<in> set (peers n). snap_key r \<noteq> (1, asc ''acct'', asc ''own'')"
    using peers_keys[of n] by (force simp: image_iff)
  then have "filter (\<lambda>r. snap_key r \<noteq> (1, asc ''acct'', asc ''own'')) (peers n) = peers n"
    by (simp add: filter_id_conv)
  then show ?thesis by (simp add: mk_snap_def snap_key_def)
qed

lemma get_peers_own:
  "get_snapshots (peers n @ [mk_snap (asc ''own'') mt a b]) 1 (asc ''acct'') (asc ''own'')
   = Some (mk_snap (asc ''own'') mt a b)"
proof -
  have "\<forall>r \<in> set (peers n). snap_key r \<noteq> (1, asc ''acct'', asc ''own'')"
    using peers_keys[of n] by (force simp: image_iff)
  then have "find (\<lambda>r. snap_key r = (1, asc ''acct'', asc ''own'')) (peers n) = None"
    by (simp add: find_None_iff)
  then show ?thesis
    by (simp add: get_snapshots_def find_app mk_snap_def snap_key_def)
qed

lemma smt_plain_empty: "snap_media_type (mk_snap u (Some []) a b) plain_item = []"
  by (simp add: snap_media_type_def mk_snap_def plain_item_def item_type_def opt_str_or_def py_lower_def)

lemma pool_peers11: "velocity_pool (peers 11) 1 (asc ''acct'') [] ''d1'' = [1,2,3,4,5,6,7,8,9,10,11]"
  unfolding peers_def upt_peers11 by (simp add: pool_eval)

theorem own_row_in_pool_witness:
  "length (velocity_pool (peers 11) 1 (asc ''acct'') [] ''d1'') + 1 = min_cohort_size ''d1''
   \<and> snd (velocity_from_snapshots
            (upsert_snapshot (peers 11) 0 1 (asc ''acct'') (asc ''own'') (Some []) (Some 0) ''d1''
               None (Some 5) None)
            1 (asc ''acct'') (mk_snap (asc ''own'') (Some []) (likes_cols 5) empty_cols) plain_item ''d1'')
       \<noteq> INSUFFICIENT_DATA"
proof -
  let ?own = "mk_snap (asc ''own'') (Some []) (likes_cols 5) empty_cols"
  let ?T = "upsert_snapshot (peers 11) 0 1 (asc ''acct'') (asc ''own'') (Some []) (Some 0) ''d1''
               None (Some 5) None"
  have T: "?T = peers 11 @ [?own]" by (rule upsert_fresh_d1[OF peers_keys])
  have c: "cols_of ''d1'' = Some sn_d1" by (simp add: cols_of_def)
  have nn: "(None :: int option) \<noteq> None \<or> Some (5::int) \<noteq> None \<or> (None :: int option) \<noteq> None" by simp
  obtain own where g: "get_snapshots ?T 1 (asc ''acct'') (asc ''own'') = Some own"
    and r: "let pool = velocity_pool ?T 1 (asc ''acct'') (snap_media_type own plain_item) ''d1'';
              peers = velocity_pool (filter (\<lambda>r. snap_key r \<noteq> (1, asc ''acct'', asc ''own'')) ?T) 1
                        (asc ''acct'') (snap_media_type own plain_item) ''d1'';
              own_mt = py_lower (opt_str_or (sn_media_type own) []);
              days = (of_int (checkpoint_days ''d1'') :: rat)
          in metric_value own_mt None (Some 5) None / days \<in> set pool
           \<and> length pool = length peers + 1
           \<and> (metric_value (item_type plain_item) None (Some 5) None
                  = metric_value own_mt None (Some 5) None
                \<longrightarrow> metric_value (item_type plain_item) None (Some 5) None / days \<in> set pool)
           \<and> (length peers + 1 = min_cohort_size ''d1'' \<longrightarrow>
                 (\<exists>p. 1 \<le> p \<and> p \<le> 100
                      \<and> fst (velocity_from_snapshots ?T 1 (asc ''acct'') own plain_item ''d1'')
                          = Some (str_int p @ asc ''%''))
                 \<and> snd (velocity_from_snapshots ?T 1 (asc ''acct'') own plain_item ''d1'')
                     \<noteq> INSUFFICIENT_DATA)"
    using own_row_in_pool[OF peers11_distinct c nn refl, of 0 1 "asc ''acct''" "asc ''own''" "Some []" "Some 0" plain_item]
    by blast
  have o: "own = ?own" using g unfolding T get_peers_own by simp
  have l: "length (velocity_pool (peers 11) 1 (asc ''acct'') [] ''d1'') + 1 = min_cohort_size ''d1''"
    unfolding pool_peers11 by (simp add: min_cohort_size_def)
  have "snd (velocity_from_snapshots ?T 1 (asc ''acct'') ?own plain_item ''d1'') \<noteq> INSUFFICIENT_DATA"
    using r l unfolding o Let_def smt_plain_empty
    unfolding T filter_peers_own by blast
  then show ?thesis using l by blast
qed

text \<open>
  C10 as stated fails where it says that the post's own metric per day is in the pool:
  a row first stored with an empty media type keeps it, so its pool value is its likes
  per day, while an item of type \<open>Video\<close> is ranked by its views per day.
\<close>

theorem own_value_not_in_pool_counterexample:
  "map_option (\<lambda>s. (snap_media_type s video_item, metric_for_checkpoint s video_item ''d3''))
     (get_snapshots
        (upsert_snapshot [mk_snap (asc ''own'') (Some []) empty_cols empty_cols] 0 1 (asc ''acct'')
           (asc ''own'') (Some (asc ''Video'')) (Some 0) ''d3'' (Some 100) (Some 10) None)
        1 (asc ''acct'') (asc ''own''))
     = Some (asc ''video'', Some 100)
   \<and> velocity_pool
        (upsert_snapshot [mk_snap (asc ''own'') (Some []) empty_cols empty_cols] 0 1 (asc ''acct'')
           (asc ''own'') (Some (asc ''Video'')) (Some 0) ''d3'' (Some 100) (Some 10) None)
        1 (asc ''acct'') (asc ''video'') ''d3'' = [10 / 3]
   \<and> (100 :: rat) / of_int (checkpoint_days ''d3'') \<notin> set [10 / 3]"
  by (simp add: upsert_snapshot_def get_snapshots_def snap_key_def mk_snap_def cols_of_def set_cols_def
        coalesce_def empty_cols_def snap_media_type_def video_item_def item_type_def opt_str_or_def
        py_lower_def lower_cp_def asc_def metric_for_checkpoint_def metric_value_def int_or0_def
        velocity_pool_def checkpoint_days_def pool_rows_def pool_skips_def)

subsection \<open>C8: the circuit breaker's records\<close>

text \<open>
  C8, as the code has it. With the health row present, \<open>record_apify_failure\<close> returns the
  incremented count and stores the error; exactly when the incremented count reaches
  \<open>max(1, trigger_N)\<close> (which, for a counter that is not negative, is when it reaches
  \<open>trigger_N\<close>) it sets \<open>pause_until\<close> to \<open>now\<close> plus \<open>max(1, cooldown_hours)\<close> hours and
  resets the counter to 0, and otherwise it stores the incremented count and leaves
  \<open>pause_until\<close> as it was. \<open>record_apify_success\<close> resets the counter to 0 and clears
  \<open>pause_until\<close> and \<open>last_error\<close>.
\<close>

theorem circuit_breaker_records:
  "record_apify_failure (Some h) now e N C =
     (if consecutive_failures h + 1 \<ge> max 1 N
      then ((consecutive_failures h + 1, Some (now + max 1 C * 3600)),
            Some (h\<lparr>consecutive_failures := 0, pause_until := Some (now + max 1 C * 3600),
                    last_error := Some (take 1000 e)\<rparr>))
      else ((consecutive_failures h + 1, None),
            Some (h\<lparr>consecutive_failures := consecutive_failures h + 1,
                    last_error := Some (take 1000 e)\<rparr>)))
   \<and> (0 \<le> consecutive_failures h \<longrightarrow>
        (consecutive_failures h + 1 \<ge> max 1 N \<longleftrightarrow> consecutive_failures h + 1 \<ge> N))
   \<and> (1 \<le> C \<longrightarrow> now + max 1 C * 3600 = now + C * 3600)
   \<and> record_apify_success (Some h)
       = Some (h\<lparr>consecutive_failures := 0, pause_until := None, last_error := None\<rparr>)"
  by (auto simp: record_apify_failure_def record_apify_success_def Let_def)

theorem circuit_breaker_records_witness:
  "record_apify_failure
     (Some \<lparr>consecutive_failures = 4, pause_until = None, last_error = None\<rparr>) 100 (asc ''timeout'') 5 3
   = ((5, Some 10900),
      Some \<lparr>consecutive_failures = 0, pause_until = Some 10900, last_error = Some (asc ''timeout'')\<rparr>)"
  using circuit_breaker_records[of "\<lparr>consecutive_failures = 4, pause_until = None, last_error = None\<rparr>"
      100 "asc ''timeout''" 5 3]
  by (simp add: asc_def)

text \<open>
  C8 as stated fails for a cooldown below one hour: with \<open>cooldown_hours = 0\<close> the pause
  lasts one hour, not zero.
\<close>

theorem cooldown_clamp_counterexample:
  "snd (fst (record_apify_failure
       (Some \<lparr>consecutive_failures = 0, pause_until = None, last_error = None\<rparr>) 100 [] 1 0))
   = Some 3700
   \<and> Some (3700 :: int) \<noteq> Some (100 + 0 * 3600)"
  by (simp add: record_apify_failure_def)

subsection \<open>The loops over a post batch\<close>

lemma cooldown_loop_frame:
  "r \<in> set (cooldown_loop q p pjs) \<Longrightarrow> pj_id r \<notin> pj_id ` set pjs \<Longrightarrow> r \<in> set q"
proof (induction pjs arbitrary: q)
  case Nil
  then show ?case by simp
next
  case (Cons pj pjs)
  then have "r \<in> set (mark_post_job_retry q (pj_id pj) (pj_attempt pj) p (asc ''Apify cooldown active''))"
    by simp
  then show ?case using Cons.prems(2) by (auto simp: mark_post_job_retry_def)
qed

lemma cooldown_loop_marks:
  assumes "distinct (map pj_id pjs)" "pj \<in> set pjs" "r \<in> set (cooldown_loop q p pjs)"
    "pj_id r = pj_id pj"
  shows "pj_status r = Retry \<and> pj_next_run_at r = p \<and> pj_attempt r = pj_attempt pj"
  using assms
proof (induction pjs arbitrary: q)
  case Nil
  then show ?case by simp
next
  case (Cons a pjs)
  let ?q1 = "mark_post_job_retry q (pj_id a) (pj_attempt a) p (asc ''Apify cooldown active'')"
  have r: "r \<in> set (cooldown_loop ?q1 p pjs)" using Cons.prems(3) by simp
  show ?case
  proof (cases "pj \<in> set pjs")
    case True
    then show ?thesis using Cons.IH[OF _ True r Cons.prems(4)] Cons.prems(1) by simp
  next
    case False
    then have e: "pj = a" using Cons.prems(2) by simp
    have "pj_id r \<notin> pj_id ` set pjs" using Cons.prems(1,4) e by auto
    then have "r \<in> set ?q1" using cooldown_loop_frame[OF r] by simp
    then show ?thesis using Cons.prems(4) e by (auto simp: mark_post_job_retry_def)
  qed
qed

lemmas mark_defs = mark_post_job_success_def mark_post_job_retry_def mark_post_job_failed_def
  mark_post_job_skipped_def

lemma mark_ids:
  "map pj_id (mark_post_job_success q i) = map pj_id q"
  "map pj_id (mark_post_job_retry q i a t e) = map pj_id q"
  "map pj_id (mark_post_job_failed q i e) = map pj_id q"
  "map pj_id (mark_post_job_skipped q i e) = map pj_id q"
  by (induction q) (simp_all add: mark_defs)

lemma resolve_step_ids:
  "resolve_post_job cfg now sg res q pj = Some q1 \<Longrightarrow> map pj_id q1 = map pj_id q"
  by (auto simp: resolve_post_job_def mark_ids Let_def split: if_splits option.splits)

lemma resolve_step_frame:
  "resolve_post_job cfg now sg res q pj = Some q1 \<Longrightarrow> r \<in> set q1 \<Longrightarrow> pj_id r \<noteq> pj_id pj \<Longrightarrow> r \<in> set q"
  by (auto simp: resolve_post_job_def mark_defs Let_def split: if_splits option.splits)

lemma resolve_step_marks:
  "resolve_post_job cfg now sg res q pj = Some q1 \<Longrightarrow> r \<in> set q1 \<Longrightarrow> pj_id r = pj_id pj \<Longrightarrow> settled pj r"
  by (auto simp: resolve_post_job_def mark_defs Let_def settled_def split: if_splits option.splits)

lemma fail_step_frame:
  "fail_post_job cfg now np e q pj = Some q1 \<Longrightarrow> r \<in> set q1 \<Longrightarrow> pj_id r \<noteq> pj_id pj \<Longrightarrow> r \<in> set q"
  by (auto simp: fail_post_job_def mark_defs Let_def split: if_splits option.splits)

lemma fail_step_marks:
  "fail_post_job cfg now np e q pj = Some q1 \<Longrightarrow> r \<in> set q1 \<Longrightarrow> pj_id r = pj_id pj \<Longrightarrow>
   pj_status r = Failed \<or> (pj_status r = Retry \<and> pj_attempt r = pj_attempt pj + 1)"
  by (auto simp: fail_post_job_def mark_defs Let_def split: if_splits option.splits)

lemma resolve_loop_frame:
  "resolve_loop cfg now sg res q pjs = Some q' \<Longrightarrow> r \<in> set q' \<Longrightarrow> pj_id r \<notin> pj_id ` set pjs
   \<Longrightarrow> r \<in> set q"
proof (induction pjs arbitrary: q)
  case Nil
  then show ?case by simp
next
  case (Cons a pjs)
  then obtain q1 where s: "resolve_post_job cfg now sg res q a = Some q1"
    and l: "resolve_loop cfg now sg res q1 pjs = Some q'"
    by (auto split: option.splits)
  have "r \<in> set q1" using Cons.IH[OF l Cons.prems(2)] Cons.prems(3) by simp
  then show ?case using resolve_step_frame[OF s] Cons.prems(3) by simp
qed

lemma resolve_loop_marks:
  assumes "resolve_loop cfg now sg res q pjs = Some q'" "distinct (map pj_id pjs)" "pj \<in> set pjs"
    "r \<in> set q'" "pj_id r = pj_id pj"
  shows "settled pj r"
  using assms
proof (induction pjs arbitrary: q)
  case Nil
  then show ?case by simp
next
  case (Cons a pjs)
  then obtain q1 where s: "resolve_post_job cfg now sg res q a = Some q1"
    and l: "resolve_loop cfg now sg res q1 pjs = Some q'"
    by (auto split: option.splits)
  show ?case
  proof (cases "pj \<in> set pjs")
    case True
    then show ?thesis using Cons.IH[OF l _ True Cons.prems(4,5)] Cons.prems(2) by simp
  next
    case False
    then have e: "pj = a" using Cons.prems(3) by simp
    have "pj_id r \<notin> pj_id ` set pjs" using Cons.prems(2,5) e by auto
    then have "r \<in> set q1" using resolve_loop_frame[OF l Cons.prems(4)] by simp
    then show ?thesis using resolve_step_marks[OF s] Cons.prems(5) e by simp
  qed
qed

lemma failure_loop_frame:
  "failure_loop cfg now np e q pjs = Some q' \<Longrightarrow> r \<in> set q' \<Longrightarrow> pj_id r \<notin> pj_id ` set pjs
   \<Longrightarrow> r \<in> set q"
proof (induction pjs arbitrary: q)
  case Nil
  then show ?case by simp
next
  case (Cons a pjs)
  then obtain q1 where s: "fail_post_job cfg now np e q a = Some q1"
    and l: "failure_loop cfg now np e q1 pjs = Some q'"
    by (auto split: option.splits)
  have "r \<in> set q1" using Cons.IH[OF l Cons.prems(2)] Cons.prems(3) by simp
  then show ?case using fail_step_frame[OF s] Cons.prems(3) by simp
qed

lemma failure_loop_marks:
  assumes "failure_loop cfg now np e q pjs = Some q'" "distinct (map pj_id pjs)" "pj \<in> set pjs"
    "r \<in> set q'" "pj_id r = pj_id pj"
  shows "pj_status r = Failed \<or> (pj_status r = Retry \<and> pj_attempt r = pj_attempt pj + 1)"
  using assms
proof (induction pjs arbitrary: q)
  case Nil
  then show ?case by simp
next
  case (Cons a pjs)
  then obtain q1 where s: "fail_post_job cfg now np e q a = Some q1"
    and l: "failure_loop cfg now np e q1 pjs = Some q'"
    by (auto split: option.splits)
  show ?case
  proof (cases "pj \<in> set pjs")
    case True
    then show ?thesis using Cons.IH[OF l _ True Cons.prems(4,5)] Cons.prems(2) by simp
  next
    case False
    then have e: "pj = a" using Cons.prems(3) by simp
    have "pj_id r \<notin> pj_id ` set pjs" using Cons.prems(2,5) e by auto
    then have "r \<in> set q1" using failure_loop_frame[OF l Cons.prems(4)] by simp
    then show ?thesis using fail_step_marks[OF s] Cons.prems(5) e by simp
  qed
qed

lemma next_retry_time_some:
  "1 \<le> attempt \<Longrightarrow> attempt \<le> int (length (retry_backoff_minutes cfg)) \<Longrightarrow>
   \<exists>t. next_retry_time cfg now attempt = Some t"
  by (auto simp: next_retry_time_def py_nth_def Let_def min_def)

lemma resolve_step_total:
  "0 \<le> pj_attempt pj \<Longrightarrow> \<exists>q1. resolve_post_job cfg now sg res q pj = Some q1"
  using next_retry_time_some[of "pj_attempt pj + 1" cfg now]
  by (auto simp: resolve_post_job_def Let_def)

lemma fail_step_total:
  "0 \<le> pj_attempt pj \<Longrightarrow> \<exists>q1. fail_post_job cfg now np e q pj = Some q1"
  using next_retry_time_some[of "pj_attempt pj + 1" cfg now]
  by (auto simp: fail_post_job_def Let_def)

lemma resolve_loop_total:
  "\<forall>pj \<in> set pjs. 0 \<le> pj_attempt pj \<Longrightarrow> \<exists>q'. resolve_loop cfg now sg res q pjs = Some q'"
proof (induction pjs arbitrary: q)
  case Nil
  then show ?case by simp
next
  case (Cons a pjs)
  then obtain q1 where "resolve_post_job cfg now sg res q a = Some q1"
    using resolve_step_total[of a cfg now sg res q] by auto
  then show ?case using Cons by simp
qed

lemma failure_loop_total:
  "\<forall>pj \<in> set pjs. 0 \<le> pj_attempt pj \<Longrightarrow> \<exists>q'. failure_loop cfg now np e q pjs = Some q'"
proof (induction pjs arbitrary: q)
  case Nil
  then show ?case by simp
next
  case (Cons a pjs)
  then obtain q1 where "fail_post_job cfg now np e q a = Some q1"
    using fail_step_total[of a cfg now np e q] by auto
  then show ?case using Cons by simp
qed


lemma fetch_next_job_some:
  assumes "fetch_next_job q now = (Some job, rq)"
  shows "job \<in> set q" "hj_status job = Pending \<or> hj_status job = Retry" "hj_next_run_at job \<le> now"
    "rq = map (\<lambda>j. if hj_id j = hj_id job then j\<lparr>hj_status := Running\<rparr> else j) q"
proof -
  let ?ready = "filter (\<lambda>j. (hj_status j = Pending \<or> hj_status j = Retry) \<and> hj_next_run_at j \<le> now) q"
  obtain rest where s: "sort_key (\<lambda>j. (hj_next_run_at j, hj_id j)) ?ready = job # rest"
    and r: "rq = map (\<lambda>j. if hj_id j = hj_id job then j\<lparr>hj_status := Running\<rparr> else j) q"
    using assms by (auto simp: fetch_next_job_def split: list.splits)
  have "job \<in> set (sort_key (\<lambda>j. (hj_next_run_at j, hj_id j)) ?ready)" using s by simp
  then have m: "job \<in> set ?ready" by simp
  show "job \<in> set q" using m by simp
  show "hj_status job = Pending \<or> hj_status job = Retry" using m by simp
  show "hj_next_run_at job \<le> now" using m by simp
  show "rq = map (\<lambda>j. if hj_id j = hj_id job then j\<lparr>hj_status := Running\<rparr> else j) q" by (rule r)
qed

lemma cooldown_retry_rows:
  assumes "fetch_next_job q now = (Some job, rq)"
    and "r \<in> set (mark_job_retry rq (hj_id job) (hj_attempt job) p e)"
  shows "hj_id r = hj_id job \<longrightarrow> hj_status r = Retry \<and> hj_next_run_at r = p \<and> hj_attempt r = hj_attempt job"
    and "hj_status r = Running \<longrightarrow> r \<in> set q"
  using assms(2) unfolding fetch_next_job_some(4)[OF assms(1)]
  by (auto simp: mark_job_retry_def split: if_splits)

subsection \<open>C7: the cooldown\<close>

text \<open>
  C7, as the code has it. Let the circuit breaker's \<open>pause_until\<close> be \<open>p\<close>, in the future.
  A turn of the worker loop that claims a handle job does not scrape: it returns the job
  to \<open>retry\<close> with \<open>next_run_at = p\<close> and the attempt the job had, and leaves no row
  \<open>running\<close> that was not so before the turn. A turn that claims a batch of post jobs
  returns each of them to \<open>retry\<close> with \<open>next_run_at = p\<close> and its own attempt, and
  touches no other row. Outside a cooldown, every row the worker newly sets to \<open>retry\<close>
  carries the attempt of its job plus one: the cooldown is the only retry that does not
  consume the attempt budget.
\<close>

theorem cooldown_returns_claimed_jobs:
  assumes "get_apify_pause_until (apify_health d) = Some p" and "now < p"
  shows "(fetch_next_job (run_queue d) now = (Some job, rq) \<longrightarrow>
           job \<in> set (run_queue d)
           \<and> worker_iteration cfg fetch_batch sync_handle sync_batch d now
               = Some (d\<lparr>run_queue := mark_job_retry rq (hj_id job) (hj_attempt job) p
                                          (asc ''Apify cooldown active'')\<rparr>)
           \<and> (\<forall>r \<in> set (mark_job_retry rq (hj_id job) (hj_attempt job) p (asc ''Apify cooldown active'')).
                 (hj_id r = hj_id job \<longrightarrow>
                    hj_status r = Retry \<and> hj_next_run_at r = p \<and> hj_attempt r = hj_attempt job)
                 \<and> (hj_status r = Running \<longrightarrow> r \<in> set (run_queue d))))
    \<and> (fetch_next_job (run_queue d) now = (None, rq)
         \<and> fetch_batch (post_queue d) now 10 = (post_jobs, pq) \<and> post_jobs \<noteq> []
         \<and> distinct (map pj_id post_jobs) \<longrightarrow>
           worker_iteration cfg fetch_batch sync_handle sync_batch d now
             = Some (d\<lparr>run_queue := rq, post_queue := cooldown_loop pq p post_jobs\<rparr>)
           \<and> (\<forall>r \<in> set (cooldown_loop pq p post_jobs).
                 (\<forall>pj \<in> set post_jobs. pj_id r = pj_id pj \<longrightarrow>
                    pj_status r = Retry \<and> pj_next_run_at r = p \<and> pj_attempt r = pj_attempt pj)
                 \<and> (pj_id r \<notin> pj_id ` set post_jobs \<longrightarrow> r \<in> set pq)))
    \<and> (cooldown_active pause now = None
         \<and> worker_handle_job cfg d now pause job sync = Some d' \<longrightarrow>
           (\<forall>r \<in> set (run_queue d'). r \<notin> set (run_queue d) \<and> hj_status r = Retry
                 \<longrightarrow> hj_attempt r = hj_attempt job + 1))
    \<and> (cooldown_active pause now = None
         \<and> worker_post_batch cfg d now pause post_jobs bsync = Some d'
         \<and> distinct (map pj_id post_jobs) \<longrightarrow>
           (\<forall>r \<in> set (post_queue d'). \<forall>pj \<in> set post_jobs. pj_id r = pj_id pj \<and> pj_status r = Retry
                 \<longrightarrow> pj_attempt r = pj_attempt pj + 1))"
proof (intro conjI impI)
  have ca: "cooldown_active (Some p) now = Some p" using assms(2) by (simp add: cooldown_active_def)
  {
    assume f: "fetch_next_job (run_queue d) now = (Some job, rq)"
    show "job \<in> set (run_queue d)" by (rule fetch_next_job_some(1)[OF f])
    show "worker_iteration cfg fetch_batch sync_handle sync_batch d now
               = Some (d\<lparr>run_queue := mark_job_retry rq (hj_id job) (hj_attempt job) p
                                          (asc ''Apify cooldown active'')\<rparr>)"
      unfolding worker_iteration_def Let_def assms(1) f
      by (simp add: worker_handle_job_def ca)
    show "\<forall>r \<in> set (mark_job_retry rq (hj_id job) (hj_attempt job) p (asc ''Apify cooldown active'')).
                 (hj_id r = hj_id job \<longrightarrow>
                    hj_status r = Retry \<and> hj_next_run_at r = p \<and> hj_attempt r = hj_attempt job)
                 \<and> (hj_status r = Running \<longrightarrow> r \<in> set (run_queue d))"
      using cooldown_retry_rows[OF f] by blast
  }
  {
    assume a: "fetch_next_job (run_queue d) now = (None, rq)
         \<and> fetch_batch (post_queue d) now 10 = (post_jobs, pq) \<and> post_jobs \<noteq> []
         \<and> distinct (map pj_id post_jobs)"
    show "worker_iteration cfg fetch_batch sync_handle sync_batch d now
             = Some (d\<lparr>run_queue := rq, post_queue := cooldown_loop pq p post_jobs\<rparr>)"
      unfolding worker_iteration_def Let_def assms(1) using a
      by (simp add: worker_post_batch_def ca)
    show "\<forall>r \<in> set (cooldown_loop pq p post_jobs).
                 (\<forall>pj \<in> set post_jobs. pj_id r = pj_id pj \<longrightarrow>
                    pj_status r = Retry \<and> pj_next_run_at r = p \<and> pj_attempt r = pj_attempt pj)
                 \<and> (pj_id r \<notin> pj_id ` set post_jobs \<longrightarrow> r \<in> set pq)"
      using a cooldown_loop_marks[of post_jobs _ _ pq p] cooldown_loop_frame[of _ pq p post_jobs]
      by blast
  }
  {
    assume a: "cooldown_active pause now = None
         \<and> worker_handle_job cfg d now pause job sync = Some d'"
    show "\<forall>r \<in> set (run_queue d'). r \<notin> set (run_queue d) \<and> hj_status r = Retry
                 \<longrightarrow> hj_attempt r = hj_attempt job + 1"
      using a
      by (auto simp: worker_handle_job_def Let_def mark_job_retry_def mark_job_success_def
            mark_job_failed_def split: outcome.splits option.splits if_splits prod.splits)
  }
  {
    assume a: "cooldown_active pause now = None
         \<and> worker_post_batch cfg d now pause post_jobs bsync = Some d'
         \<and> distinct (map pj_id post_jobs)"
    show "\<forall>r \<in> set (post_queue d'). \<forall>pj \<in> set post_jobs. pj_id r = pj_id pj \<and> pj_status r = Retry
                 \<longrightarrow> pj_attempt r = pj_attempt pj + 1"
    proof (cases bsync)
      case (Raised e tb)
      then obtain q' where "failure_loop cfg now
          (snd (fst (record_apify_failure (apify_health d) now e (cooldown_trigger_failures cfg) (cooldown_hours cfg))))
          e (post_queue d) post_jobs = Some q'" and "post_queue d' = q'"
        using a by (auto simp: worker_post_batch_def split: prod.splits)
      then show ?thesis using failure_loop_marks a by fastforce
    next
      case (Returned res tb)
      then obtain q' where "resolve_loop cfg now (post_signals tb) res (post_queue d) post_jobs = Some q'"
        and "post_queue d' = q'"
        using a by (auto simp: worker_post_batch_def)
      then show ?thesis using resolve_loop_marks[of cfg now "post_signals tb" res "post_queue d" post_jobs q'] a
        by (fastforce simp: settled_def)
    qed
  }
qed


theorem cooldown_returns_claimed_jobs_witness:
  "map_option run_queue
     (worker_iteration default_config fetch_next_post_job_batch scrape_times_out scrape_times_out
        paused_db 10)
   = Some [a_handle_job\<lparr>hj_status := Retry, hj_next_run_at := 1000,
                         hj_last_error := Some (asc ''Apify cooldown active'')\<rparr>]"
proof -
  have p: "get_apify_pause_until (apify_health paused_db) = Some 1000"
    by (simp add: get_apify_pause_until_def paused_db_def paused_health_def)
  have lt: "(10::int) < 1000" by simp
  have f: "fetch_next_job (run_queue paused_db) 10 = (Some a_handle_job, [a_handle_job\<lparr>hj_status := Running\<rparr>])"
    by (simp add: fetch_next_job_def paused_db_def a_handle_job_def)
  have "worker_iteration default_config fetch_next_post_job_batch scrape_times_out scrape_times_out
          paused_db 10
        = Some (paused_db\<lparr>run_queue := mark_job_retry [a_handle_job\<lparr>hj_status := Running\<rparr>]
                   (hj_id a_handle_job) (hj_attempt a_handle_job) 1000 (asc ''Apify cooldown active'')\<rparr>)"
    using cooldown_returns_claimed_jobs[OF p lt, THEN conjunct1, rule_format, OF f, THEN conjunct2,
        THEN conjunct1] .
  then show ?thesis
    by (simp add: mark_job_retry_def a_handle_job_def asc_def)
qed

text \<open>
  C7 as stated fails on "no job transitions to running": the claim itself
  (\<open>fetch_next_job\<close>, called before the pause is looked at) sets the row to \<open>running\<close>
  although \<open>pause_until\<close> is in the future.
\<close>

theorem claimed_job_runs_counterexample:
  "get_apify_pause_until (Some paused_health) = Some 1000 \<and> (10::int) < 1000
   \<and> hj_status a_handle_job = Pending
   \<and> snd (fetch_next_job [a_handle_job] 10) = [a_handle_job\<lparr>hj_status := Running\<rparr>]"
  by (simp add: get_apify_pause_until_def paused_health_def fetch_next_job_def a_handle_job_def)

subsection \<open>C6: the batch claim\<close>

lemma sort_key_distinct_map:
  "distinct (map f (sort_key k xs)) = distinct (map f xs)"
proof -
  have "mset (map f (sort_key k xs)) = mset (map f xs)" by simp
  then show ?thesis by (rule mset_eq_imp_distinct_iff)
qed

lemma fetch_batch_empty:
  assumes "sort_key (\<lambda>j. (pj_next_run_at j, pj_id j)) (filter (post_ready now) q) = []"
  shows "fetch_next_post_job_batch q now n = ([], q)"
proof -
  have "post_ready now = (\<lambda>j. (pj_status j = Pending \<or> pj_status j = Retry) \<and> pj_next_run_at j \<le> now)"
    by (auto simp: post_ready_def)
  then show ?thesis using assms by (simp add: fetch_next_post_job_batch_def)
qed

lemma fetch_batch_cons:
  assumes "sort_key (\<lambda>j. (pj_next_run_at j, pj_id j)) (filter (post_ready now) q) = anchor # rest"
  shows "fetch_next_post_job_batch q now n =
     (take n (filter (\<lambda>j. batch_key j = batch_key anchor) (anchor # rest)),
      map (\<lambda>j. if pj_id j \<in> pj_id ` set (take n (filter (\<lambda>j. batch_key j = batch_key anchor) (anchor # rest)))
                then j\<lparr>pj_status := Running\<rparr> else j) q)"
proof -
  have r: "post_ready now = (\<lambda>j. (pj_status j = Pending \<or> pj_status j = Retry) \<and> pj_next_run_at j \<le> now)"
    by (auto simp: post_ready_def)
  have k: "(\<lambda>j. batch_key j = batch_key anchor) =
      (\<lambda>j. pj_subscriber_id j = pj_subscriber_id anchor \<and> pj_handle j = pj_handle anchor
            \<and> pj_checkpoint j = pj_checkpoint anchor)"
    by (auto simp: batch_key_def)
  show ?thesis
    using assms unfolding fetch_next_post_job_batch_def r[symmetric] k
    by (simp add: Let_def)
qed

lemma post_batch_props:
  assumes "fetch_next_post_job_batch q now n = (batch, q')"
  shows "length batch \<le> n"
    and "\<forall>a \<in> set batch. a \<in> set q \<and> post_ready now a"
    and "\<forall>a \<in> set batch. \<forall>b \<in> set batch. batch_key a = batch_key b"
    and "\<forall>a \<in> set batch. length batch
            = min n (length (filter (\<lambda>j. post_ready now j \<and> batch_key j = batch_key a) q))"
    and "batch = [] \<longleftrightarrow> n = 0 \<or> (\<forall>j \<in> set q. \<not> post_ready now j)"
    and "q' = map (\<lambda>j. if pj_id j \<in> pj_id ` set batch then j\<lparr>pj_status := Running\<rparr> else j) q"
    and "distinct (map pj_id q) \<longrightarrow> distinct (map pj_id batch)"
proof -
  let ?s = "sort_key (\<lambda>j. (pj_next_run_at j, pj_id j)) (filter (post_ready now) q)"
  have all: "length batch \<le> n
    \<and> (\<forall>a \<in> set batch. a \<in> set q \<and> post_ready now a)
    \<and> (\<forall>a \<in> set batch. \<forall>b \<in> set batch. batch_key a = batch_key b)
    \<and> (\<forall>a \<in> set batch. length batch
            = min n (length (filter (\<lambda>j. post_ready now j \<and> batch_key j = batch_key a) q)))
    \<and> (batch = [] \<longleftrightarrow> n = 0 \<or> (\<forall>j \<in> set q. \<not> post_ready now j))
    \<and> q' = map (\<lambda>j. if pj_id j \<in> pj_id ` set batch then j\<lparr>pj_status := Running\<rparr> else j) q
    \<and> (distinct (map pj_id q) \<longrightarrow> distinct (map pj_id batch))"
  proof (cases ?s)
    case Nil
    then have e: "batch = []" "q' = q" using assms fetch_batch_empty[OF Nil, of n] by simp_all
    have "set ?s = {}" using Nil by simp
    then have "\<forall>j \<in> set q. \<not> post_ready now j" by auto
    then show ?thesis using e by simp
  next
    case (Cons anchor rest)
    let ?f = "filter (\<lambda>j. batch_key j = batch_key anchor) (anchor # rest)"
    have bq: "take n ?f = batch
        \<and> map (\<lambda>j. if pj_id j \<in> pj_id ` set (take n ?f) then j\<lparr>pj_status := Running\<rparr> else j) q = q'"
      using assms unfolding fetch_batch_cons[OF Cons, of n] prod.inject .
    have b: "batch = take n ?f" using bq by blast
    have q: "q' = map (\<lambda>j. if pj_id j \<in> pj_id ` set batch then j\<lparr>pj_status := Running\<rparr> else j) q"
      using bq by blast
    have sub: "set batch \<subseteq> set ?f" unfolding b by (rule set_take_subset)
    have fs: "set ?f \<subseteq> set ?s" unfolding Cons by auto
    have mem: "\<forall>a \<in> set batch. a \<in> set q \<and> post_ready now a \<and> batch_key a = batch_key anchor"
    proof
      fix a assume "a \<in> set batch"
      then have 1: "a \<in> set ?f" using sub by blast
      then have "a \<in> set ?s" using fs by blast
      then have "a \<in> set (filter (post_ready now) q)" by simp
      then show "a \<in> set q \<and> post_ready now a \<and> batch_key a = batch_key anchor"
        using 1 by auto
    qed
    have lenf: "length ?f = length (filter (\<lambda>j. post_ready now j \<and> batch_key j = batch_key anchor) q)"
    proof -
      have "?f = filter (\<lambda>j. batch_key j = batch_key anchor) ?s" unfolding Cons by simp
      also have "\<dots> = sort_key (\<lambda>j. (pj_next_run_at j, pj_id j))
          (filter (\<lambda>j. batch_key j = batch_key anchor) (filter (post_ready now) q))"
        by (rule filter_sort)
      finally have "length ?f = length (filter (\<lambda>j. batch_key j = batch_key anchor) (filter (post_ready now) q))"
        by simp
      then show ?thesis by (simp add: conj_commute)
    qed
    have len: "length batch = min n (length (filter (\<lambda>j. post_ready now j \<and> batch_key j = batch_key anchor) q))"
      unfolding b using lenf by (simp add: min.commute)
    have ane: "anchor \<in> set ?f" by simp
    then have fne: "?f \<noteq> []" by auto
    have "anchor \<in> set ?s" using Cons by simp
    then have rdy: "anchor \<in> set q \<and> post_ready now anchor" by simp
    have emp: "batch = [] \<longleftrightarrow> n = 0 \<or> (\<forall>j \<in> set q. \<not> post_ready now j)"
      unfolding b using fne rdy by (auto simp: take_eq_Nil)
    have dist: "distinct (map pj_id q) \<longrightarrow> distinct (map pj_id batch)"
    proof
      assume "distinct (map pj_id q)"
      then have "distinct (map pj_id (filter (post_ready now) q))" by (rule distinct_map_filter)
      then have "distinct (map pj_id ?s)" by (simp add: sort_key_distinct_map)
      then have "distinct (map pj_id ?f)" unfolding Cons by (rule distinct_map_filter)
      then have "distinct (take n (map pj_id ?f))" by (rule distinct_take)
      then show "distinct (map pj_id batch)" unfolding b take_map .
    qed
    have c1: "length batch \<le> n" unfolding b by simp
    have c2: "\<forall>a \<in> set batch. a \<in> set q \<and> post_ready now a" using mem by blast
    have c3: "\<forall>a \<in> set batch. \<forall>b \<in> set batch. batch_key a = batch_key b" using mem by metis
    have c4: "\<forall>a \<in> set batch. length batch
            = min n (length (filter (\<lambda>j. post_ready now j \<and> batch_key j = batch_key a) q))"
    proof
      fix a assume "a \<in> set batch"
      then have "batch_key a = batch_key anchor" using mem by blast
      then show "length batch
            = min n (length (filter (\<lambda>j. post_ready now j \<and> batch_key j = batch_key a) q))"
        using len by simp
    qed
    show ?thesis using c1 c2 c3 c4 emp q dist by blast
  qed
  show "length batch \<le> n" using all by blast
  show "\<forall>a \<in> set batch. a \<in> set q \<and> post_ready now a" using all by blast
  show "\<forall>a \<in> set batch. \<forall>b \<in> set batch. batch_key a = batch_key b" using all by blast
  show "\<forall>a \<in> set batch. length batch
            = min n (length (filter (\<lambda>j. post_ready now j \<and> batch_key j = batch_key a) q))"
    using all by blast
  show "batch = [] \<longleftrightarrow> n = 0 \<or> (\<forall>j \<in> set q. \<not> post_ready now j)" using all by blast
  show "q' = map (\<lambda>j. if pj_id j \<in> pj_id ` set batch then j\<lparr>pj_status := Running\<rparr> else j) q"
    using all by blast
  show "distinct (map pj_id q) \<longrightarrow> distinct (map pj_id batch)" using all by blast
qed


lemma cooldown_loop_ids: "map pj_id (cooldown_loop q p pjs) = map pj_id q"
  by (induction pjs arbitrary: q) (simp_all add: mark_ids)

lemma resolve_loop_ids:
  "resolve_loop cfg now sg res q pjs = Some q' \<Longrightarrow> map pj_id q' = map pj_id q"
proof (induction pjs arbitrary: q)
  case Nil
  then show ?case by simp
next
  case (Cons a pjs)
  then obtain q1 where s: "resolve_post_job cfg now sg res q a = Some q1"
    and l: "resolve_loop cfg now sg res q1 pjs = Some q'"
    by (auto split: option.splits)
  show ?case using Cons.IH[OF l] resolve_step_ids[OF s] by simp
qed

lemma fail_step_ids:
  "fail_post_job cfg now np e q pj = Some q1 \<Longrightarrow> map pj_id q1 = map pj_id q"
  by (auto simp: fail_post_job_def mark_ids Let_def split: if_splits option.splits)

lemma failure_loop_ids:
  "failure_loop cfg now np e q pjs = Some q' \<Longrightarrow> map pj_id q' = map pj_id q"
proof (induction pjs arbitrary: q)
  case Nil
  then show ?case by simp
next
  case (Cons a pjs)
  then obtain q1 where s: "fail_post_job cfg now np e q a = Some q1"
    and l: "failure_loop cfg now np e q1 pjs = Some q'"
    by (auto split: option.splits)
  show ?case using Cons.IH[OF l] fail_step_ids[OF s] by simp
qed

lemma resolve_step_status:
  "resolve_post_job cfg now sg res q pj = Some q1 \<Longrightarrow> r \<in> set q1 \<Longrightarrow> pj_id r = pj_id pj \<Longrightarrow>
   pj_status r = resolution cfg sg res pj"
  by (auto simp: resolve_post_job_def resolution_def mark_defs Let_def split: if_splits option.splits)

lemma resolve_loop_status:
  assumes "resolve_loop cfg now sg res q pjs = Some q'" "distinct (map pj_id pjs)" "pj \<in> set pjs"
    "r \<in> set q'" "pj_id r = pj_id pj"
  shows "pj_status r = resolution cfg sg res pj"
  using assms
proof (induction pjs arbitrary: q)
  case Nil
  then show ?case by simp
next
  case (Cons a pjs)
  then obtain q1 where s: "resolve_post_job cfg now sg res q a = Some q1"
    and l: "resolve_loop cfg now sg res q1 pjs = Some q'"
    by (auto split: option.splits)
  show ?case
  proof (cases "pj \<in> set pjs")
    case True
    then show ?thesis using Cons.IH[OF l _ True Cons.prems(4,5)] Cons.prems(2) by simp
  next
    case False
    then have e: "pj = a" using Cons.prems(3) by simp
    have "pj_id r \<notin> pj_id ` set pjs" using Cons.prems(2,5) e by auto
    then have "r \<in> set q1" using resolve_loop_frame[OF l Cons.prems(4)] by simp
    then show ?thesis using resolve_step_status[OF s] Cons.prems(5) e by simp
  qed
qed

lemma worker_post_batch_ids:
  "worker_post_batch cfg d now pause pjs sync = Some d' \<Longrightarrow>
   map pj_id (post_queue d') = map pj_id (post_queue d)"
  by (auto simp: worker_post_batch_def cooldown_loop_ids resolve_loop_ids failure_loop_ids
        split: option.splits outcome.splits prod.splits)

lemma worker_post_batch_rows:
  assumes w: "worker_post_batch cfg d now pause pjs sync = Some d'"
    and dist: "distinct (map pj_id pjs)" and pj: "pj \<in> set pjs"
    and r: "r \<in> set (post_queue d')" "pj_id r = pj_id pj"
  shows "case cooldown_active pause now of
           Some p \<Rightarrow> pj_status r = Retry \<and> pj_next_run_at r = p \<and> pj_attempt r = pj_attempt pj
         | None \<Rightarrow>
             (case sync of
                Returned res tb \<Rightarrow> pj_status r = resolution cfg (post_signals tb) res pj \<and> settled pj r
              | Raised e tb \<Rightarrow>
                  pj_status r = Failed \<or> (pj_status r = Retry \<and> pj_attempt r = pj_attempt pj + 1))"
proof (cases "cooldown_active pause now")
  case (Some p)
  then have "post_queue d' = cooldown_loop (post_queue d) p pjs"
    using w by (auto simp: worker_post_batch_def)
  then show ?thesis using Some cooldown_loop_marks[OF dist pj _ r(2)] r(1) by simp
next
  case None
  show ?thesis
  proof (cases sync)
    case (Raised e tb)
    then obtain q' where "failure_loop cfg now
        (snd (fst (record_apify_failure (apify_health d) now e (cooldown_trigger_failures cfg) (cooldown_hours cfg))))
        e (post_queue d) pjs = Some q'" and "post_queue d' = q'"
      using w None by (auto simp: worker_post_batch_def split: prod.splits)
    then show ?thesis using None Raised failure_loop_marks[OF _ dist pj _ r(2)] r(1) by simp
  next
    case (Returned res tb)
    then obtain q' where l: "resolve_loop cfg now (post_signals tb) res (post_queue d) pjs = Some q'"
      and "post_queue d' = q'"
      using w None by (auto simp: worker_post_batch_def)
    then show ?thesis
      using None Returned resolve_loop_marks[OF l dist pj _ r(2)] resolve_loop_status[OF l dist pj _ r(2)] r(1)
      by simp
  qed
qed

lemma worker_post_batch_total:
  assumes "\<forall>pj \<in> set pjs. 0 \<le> pj_attempt pj"
  shows "\<exists>d'. worker_post_batch cfg d now pause pjs sync = Some d'"
proof (cases "cooldown_active pause now")
  case (Some p)
  then show ?thesis by (simp add: worker_post_batch_def)
next
  case None
  show ?thesis
  proof (cases sync)
    case (Raised e tb)
    then show ?thesis
      using None failure_loop_total[OF assms, of cfg now _ e "post_queue d"]
      by (auto simp: worker_post_batch_def split: prod.splits)
  next
    case (Returned res tb)
    then show ?thesis
      using None resolve_loop_total[OF assms, of cfg now "post_signals tb" res "post_queue d"]
      by (auto simp: worker_post_batch_def)
  qed
qed

text \<open>
  C6, on the batch claim as the spec describes it and on the worker's loops. A claim with
  size \<open>n\<close> returns at most \<open>n\<close> rows, each a ready row of the queue, all with the same
  \<open>(subscriber, handle, checkpoint)\<close>; their number is the smaller of \<open>n\<close> and the number
  of ready rows with that key, and the batch is empty only when \<open>n = 0\<close> or no row is
  ready; the claimed rows, and no others, are set to \<open>running\<close>. When the worker then
  works on the batch, every job of it is resolved by itself: its row no longer runs, and
  its new status is decided by the job's own gate, post URL and attempt (or, in a
  cooldown or after a failed scrape, by its own attempt). The worker's turn ends for
  every batch whose attempts are not negative.
\<close>

theorem post_batch_claim:
  assumes "fetch_next_post_job_batch q now n = (batch, q')"
  shows "length batch \<le> n
    \<and> (\<forall>a \<in> set batch. a \<in> set q \<and> post_ready now a)
    \<and> (\<forall>a \<in> set batch. \<forall>b \<in> set batch. batch_key a = batch_key b)
    \<and> (\<forall>a \<in> set batch. length batch
            = min n (length (filter (\<lambda>j. post_ready now j \<and> batch_key j = batch_key a) q)))
    \<and> (batch = [] \<longleftrightarrow> n = 0 \<or> (\<forall>j \<in> set q. \<not> post_ready now j))
    \<and> q' = map (\<lambda>j. if pj_id j \<in> pj_id ` set batch then j\<lparr>pj_status := Running\<rparr> else j) q
    \<and> (distinct (map pj_id q) \<and> post_queue d = q'
         \<and> worker_post_batch cfg d now' pause batch sync = Some d' \<longrightarrow>
           (\<forall>pj \<in> set batch.
              (\<exists>r \<in> set (post_queue d'). pj_id r = pj_id pj)
              \<and> (\<forall>r \<in> set (post_queue d'). pj_id r = pj_id pj \<longrightarrow>
                   (case cooldown_active pause now' of
                      Some p \<Rightarrow> pj_status r = Retry \<and> pj_next_run_at r = p
                                 \<and> pj_attempt r = pj_attempt pj
                    | None \<Rightarrow>
                        (case sync of
                           Returned res tb \<Rightarrow>
                             pj_status r = resolution cfg (post_signals tb) res pj \<and> settled pj r
                         | Raised e tb \<Rightarrow>
                             pj_status r = Failed
                             \<or> (pj_status r = Retry \<and> pj_attempt r = pj_attempt pj + 1))))))
    \<and> ((\<forall>pj \<in> set batch. 0 \<le> pj_attempt pj) \<longrightarrow>
          (\<exists>d'. worker_post_batch cfg d now' pause batch sync = Some d'))"
proof -
  note P = post_batch_props[OF assms]
  have W: "distinct (map pj_id q) \<and> post_queue d = q'
         \<and> worker_post_batch cfg d now' pause batch sync = Some d' \<longrightarrow>
           (\<forall>pj \<in> set batch.
              (\<exists>r \<in> set (post_queue d'). pj_id r = pj_id pj)
              \<and> (\<forall>r \<in> set (post_queue d'). pj_id r = pj_id pj \<longrightarrow>
                   (case cooldown_active pause now' of
                      Some p \<Rightarrow> pj_status r = Retry \<and> pj_next_run_at r = p
                                 \<and> pj_attempt r = pj_attempt pj
                    | None \<Rightarrow>
                        (case sync of
                           Returned res tb \<Rightarrow>
                             pj_status r = resolution cfg (post_signals tb) res pj \<and> settled pj r
                         | Raised e tb \<Rightarrow>
                             pj_status r = Failed
                             \<or> (pj_status r = Retry \<and> pj_attempt r = pj_attempt pj + 1)))))"
  proof (intro impI ballI conjI)
    fix pj
    assume a: "distinct (map pj_id q) \<and> post_queue d = q'
         \<and> worker_post_batch cfg d now' pause batch sync = Some d'"
      and pj: "pj \<in> set batch"
    have dist: "distinct (map pj_id batch)" using a P(7) by blast
    have "pj \<in> set q" using P(2) pj by blast
    then have "pj_id pj \<in> set (map pj_id q)" by simp
    also have "map pj_id q = map pj_id q'" unfolding P(6) by (induction q) auto
    also have "\<dots> = map pj_id (post_queue d')" using a worker_post_batch_ids by metis
    finally show "\<exists>r \<in> set (post_queue d'). pj_id r = pj_id pj" by auto
    fix r assume r: "r \<in> set (post_queue d')" "pj_id r = pj_id pj"
    show "case cooldown_active pause now' of
                      Some p \<Rightarrow> pj_status r = Retry \<and> pj_next_run_at r = p
                                 \<and> pj_attempt r = pj_attempt pj
                    | None \<Rightarrow>
                        (case sync of
                           Returned res tb \<Rightarrow>
                             pj_status r = resolution cfg (post_signals tb) res pj \<and> settled pj r
                         | Raised e tb \<Rightarrow>
                             pj_status r = Failed
                             \<or> (pj_status r = Retry \<and> pj_attempt r = pj_attempt pj + 1))"
      using worker_post_batch_rows[OF _ dist pj r] a by blast
  qed
  have T: "(\<forall>pj \<in> set batch. 0 \<le> pj_attempt pj) \<longrightarrow>
          (\<exists>d'. worker_post_batch cfg d now' pause batch sync = Some d')"
    using worker_post_batch_total by blast
  show ?thesis using P(1-6) W T by blast
qed


lemma three_jobs_batch:
  "fetch_next_post_job_batch three_post_jobs 5 10 =
     ([a_post_job 1 ''d3'' 0, a_post_job 3 ''d3'' 0],
      [(a_post_job 1 ''d3'' 0)\<lparr>pj_status := Running\<rparr>, a_post_job 2 ''d7'' 0,
       (a_post_job 3 ''d3'' 0)\<lparr>pj_status := Running\<rparr>])"
  by code_simp

theorem post_batch_claim_witness:
  "fst (fetch_next_post_job_batch three_post_jobs 5 10) = [a_post_job 1 ''d3'' 0, a_post_job 3 ''d3'' 0]
   \<and> length [a_post_job 1 ''d3'' 0, a_post_job 3 ''d3'' 0] \<le> (10 :: nat)
   \<and> batch_key (a_post_job 1 ''d3'' 0) = batch_key (a_post_job 3 ''d3'' 0)"
proof -
  note T = post_batch_claim[OF three_jobs_batch]
  have 1: "length [a_post_job 1 ''d3'' 0, a_post_job 3 ''d3'' 0] \<le> (10 :: nat)"
    using T[THEN conjunct1] .
  have B: "\<forall>a \<in> set [a_post_job 1 ''d3'' 0, a_post_job 3 ''d3'' 0].
          \<forall>b \<in> set [a_post_job 1 ''d3'' 0, a_post_job 3 ''d3'' 0]. batch_key a = batch_key b"
    using T[THEN conjunct2, THEN conjunct2, THEN conjunct1] .
  have m1: "a_post_job 1 ''d3'' 0 \<in> set [a_post_job 1 ''d3'' 0, a_post_job 3 ''d3'' 0]" by simp
  have m3: "a_post_job 3 ''d3'' 0 \<in> set [a_post_job 1 ''d3'' 0, a_post_job 3 ''d3'' 0]" by simp
  have 2: "batch_key (a_post_job 1 ''d3'' 0) = batch_key (a_post_job 3 ''d3'' 0)"
    by (rule bspec[OF bspec[OF B m1] m3])
  have 3: "fst (fetch_next_post_job_batch three_post_jobs 5 10)
      = [a_post_job 1 ''d3'' 0, a_post_job 3 ''d3'' 0]"
    unfolding three_jobs_batch by (rule fst_conv)
  show ?thesis by (intro conjI 3 1 2)
qed

subsection \<open>C1: the D21 gate\<close>























subsection \<open>C9: alert dedupe\<close>

lemma no_two_append:
  "no_two clash (rs @ [n]) = (no_two clash rs \<and> list_all (\<lambda>r. \<not> clash r n) rs)"
  by (induction rs) auto

lemma no_two_count:
  "no_two same_key xs \<Longrightarrow>
   length (filter (\<lambda>r. al_feed_id r = f \<and> al_dedupe_key r = k) xs) \<le> 1"
proof (induction xs)
  case Nil
  then show ?case by simp
next
  case (Cons a xs)
  have ih: "length (filter (\<lambda>r. al_feed_id r = f \<and> al_dedupe_key r = k) xs) \<le> 1"
    using Cons by simp
  show ?case
  proof (cases "al_feed_id a = f \<and> al_dedupe_key a = k")
    case True
    have "list_all (\<lambda>s. \<not> same_key a s) xs" using Cons.prems by simp
    then have "\<forall>s \<in> set xs. \<not> (al_feed_id s = f \<and> al_dedupe_key s = k)"
      using True by (auto simp: list_all_iff same_key_def)
    then have "filter (\<lambda>r. al_feed_id r = f \<and> al_dedupe_key r = k) xs = []"
      by (simp add: filter_empty_conv)
    then show ?thesis using True by simp
  next
    case False
    then show ?thesis using ih by auto
  qed
qed

lemma upsert_alert_inr:
  assumes "upsert_alert_candidate fu sha day tbl now f fd ty title c = Inr tbl'"
  shows "fu \<and> 0 \<notin> set ty \<and> 0 \<notin> set title
    \<and> (\<exists>bs. encode_utf8 (dedupe_base day now f fd ty title) = Some bs
          \<and> (tbl' = tbl
              \<or> tbl' = tbl @ [\<lparr>al_feed_id = f, al_feeder_id = fd, al_dedupe_key = sha bs,
                               al_alert_type = ty, al_title = title, al_status = ''candidate'',
                               al_created_at = now, al_content = c\<rparr>]
                \<and> \<not> (\<exists>ac \<in> set tbl. al_feed_id ac = f
                         \<and> coalesce0 (al_feeder_id ac) = coalesce0 fd
                         \<and> al_alert_type ac = ty \<and> al_title ac = title
                         \<and> al_created_at ac \<ge> now - 24 * 3600 \<and> active_status (al_status ac))
                \<and> \<not> (\<exists>ac \<in> set tbl. al_feed_id ac = f \<and> al_dedupe_key ac = sha bs)))"
proof (cases "encode_utf8 (dedupe_base day now f fd ty title)")
  case None
  then show ?thesis using assms by (simp add: upsert_alert_candidate_def)
next
  case (Some bs)
  show ?thesis
    using assms unfolding upsert_alert_candidate_def Some
    by (simp add: Let_def split: if_splits)
qed

lemma upsert_alert_keys:
  assumes "upsert_alert_candidate fu sha day tbl now f fd ty title c = Inr tbl'"
    and "no_two same_key tbl"
  shows "no_two same_key tbl'"
proof -
  obtain bs where
    d: "tbl' = tbl
       \<or> tbl' = tbl @ [\<lparr>al_feed_id = f, al_feeder_id = fd, al_dedupe_key = sha bs,
                               al_alert_type = ty, al_title = title, al_status = ''candidate'',
                               al_created_at = now, al_content = c\<rparr>]
         \<and> \<not> (\<exists>ac \<in> set tbl. al_feed_id ac = f
                         \<and> coalesce0 (al_feeder_id ac) = coalesce0 fd
                         \<and> al_alert_type ac = ty \<and> al_title ac = title
                         \<and> al_created_at ac \<ge> now - 24 * 3600 \<and> active_status (al_status ac))
         \<and> \<not> (\<exists>ac \<in> set tbl. al_feed_id ac = f \<and> al_dedupe_key ac = sha bs)"
    using upsert_alert_inr[OF assms(1)] by blast
  from d show ?thesis
  proof
    assume "tbl' = tbl"
    then show ?thesis using assms(2) by simp
  next
    assume a: "tbl' = tbl @ [\<lparr>al_feed_id = f, al_feeder_id = fd, al_dedupe_key = sha bs,
                               al_alert_type = ty, al_title = title, al_status = ''candidate'',
                               al_created_at = now, al_content = c\<rparr>]
         \<and> \<not> (\<exists>ac \<in> set tbl. al_feed_id ac = f
                         \<and> coalesce0 (al_feeder_id ac) = coalesce0 fd
                         \<and> al_alert_type ac = ty \<and> al_title ac = title
                         \<and> al_created_at ac \<ge> now - 24 * 3600 \<and> active_status (al_status ac))
         \<and> \<not> (\<exists>ac \<in> set tbl. al_feed_id ac = f \<and> al_dedupe_key ac = sha bs)"
    then have "list_all (\<lambda>r. \<not> same_key r \<lparr>al_feed_id = f, al_feeder_id = fd,
                 al_dedupe_key = sha bs, al_alert_type = ty, al_title = title,
                 al_status = ''candidate'', al_created_at = now, al_content = c\<rparr>) tbl"
      by (auto simp: list_all_iff same_key_def)
    then show ?thesis using a assms(2) by (simp add: no_two_append)
  qed
qed

lemma upsert_alert_recent:
  assumes "upsert_alert_candidate fu sha day tbl now f fd ty title c = Inr tbl'"
    and "no_two same_alert_within_day tbl" and "\<forall>r \<in> set tbl. al_created_at r \<le> now"
  shows "no_two same_alert_within_day tbl'"
proof -
  obtain bs where
    d: "tbl' = tbl
       \<or> tbl' = tbl @ [\<lparr>al_feed_id = f, al_feeder_id = fd, al_dedupe_key = sha bs,
                               al_alert_type = ty, al_title = title, al_status = ''candidate'',
                               al_created_at = now, al_content = c\<rparr>]
         \<and> \<not> (\<exists>ac \<in> set tbl. al_feed_id ac = f
                         \<and> coalesce0 (al_feeder_id ac) = coalesce0 fd
                         \<and> al_alert_type ac = ty \<and> al_title ac = title
                         \<and> al_created_at ac \<ge> now - 24 * 3600 \<and> active_status (al_status ac))
         \<and> \<not> (\<exists>ac \<in> set tbl. al_feed_id ac = f \<and> al_dedupe_key ac = sha bs)"
    using upsert_alert_inr[OF assms(1)] by blast
  from d show ?thesis
  proof
    assume "tbl' = tbl"
    then show ?thesis using assms(2) by simp
  next
    assume a: "tbl' = tbl @ [\<lparr>al_feed_id = f, al_feeder_id = fd, al_dedupe_key = sha bs,
                               al_alert_type = ty, al_title = title, al_status = ''candidate'',
                               al_created_at = now, al_content = c\<rparr>]
         \<and> \<not> (\<exists>ac \<in> set tbl. al_feed_id ac = f
                         \<and> coalesce0 (al_feeder_id ac) = coalesce0 fd
                         \<and> al_alert_type ac = ty \<and> al_title ac = title
                         \<and> al_created_at ac \<ge> now - 24 * 3600 \<and> active_status (al_status ac))
         \<and> \<not> (\<exists>ac \<in> set tbl. al_feed_id ac = f \<and> al_dedupe_key ac = sha bs)"
    have "list_all (\<lambda>r. \<not> same_alert_within_day r \<lparr>al_feed_id = f, al_feeder_id = fd,
                 al_dedupe_key = sha bs, al_alert_type = ty, al_title = title,
                 al_status = ''candidate'', al_created_at = now, al_content = c\<rparr>) tbl"
      unfolding list_all_iff
    proof
      fix r assume r: "r \<in> set tbl"
      then have le: "al_created_at r \<le> now" using assms(3) by blast
      have "\<not> (al_feed_id r = f \<and> coalesce0 (al_feeder_id r) = coalesce0 fd
              \<and> al_alert_type r = ty \<and> al_title r = title
              \<and> al_created_at r \<ge> now - 24 * 3600 \<and> active_status (al_status r))"
        using a r by blast
      then show "\<not> same_alert_within_day r \<lparr>al_feed_id = f, al_feeder_id = fd,
                 al_dedupe_key = sha bs, al_alert_type = ty, al_title = title,
                 al_status = ''candidate'', al_created_at = now, al_content = c\<rparr>"
        using le by (auto simp: same_alert_within_day_def)
    qed
    then show ?thesis using a assms(2) by (simp add: no_two_append)
  qed
qed

lemma upsert_alert_raises:
  "\<not> fu \<Longrightarrow> \<exists>e. upsert_alert_candidate fu sha day tbl now f fd ty title c = Inl e"
  by (simp add: upsert_alert_candidate_def Let_def split: option.split)

lemma upsert_alert_inserts:
  assumes "encode_utf8 (dedupe_base day now f fd ty title) = Some bs"
    and "fu" and "0 \<notin> set ty" and "0 \<notin> set title"
    and "\<not> (\<exists>ac \<in> set tbl. al_feed_id ac = f \<and> coalesce0 (al_feeder_id ac) = coalesce0 fd
              \<and> al_alert_type ac = ty \<and> al_title ac = title
              \<and> al_created_at ac \<ge> now - 24 * 3600 \<and> active_status (al_status ac))"
    and "\<not> (\<exists>ac \<in> set tbl. al_feed_id ac = f \<and> al_dedupe_key ac = sha bs)"
  shows "upsert_alert_candidate fu sha day tbl now f fd ty title c
     = Inr (tbl @ [\<lparr>al_feed_id = f, al_feeder_id = fd, al_dedupe_key = sha bs,
                     al_alert_type = ty, al_title = title, al_status = ''candidate'',
                     al_created_at = now, al_content = c\<rparr>])"
  using assms(2-6) unfolding upsert_alert_candidate_def assms(1) by (simp add: Let_def)

lemma lower_spike:
  "py_lower (py_strip (asc ''Spike'')) = asc ''spike''"
  "py_lower (py_strip (asc '' SPIKE'')) = asc ''spike''"
  by (simp_all add: py_lower_def py_strip_def lower_cp_def is_space_def asc_def)

lemma sample_base:
  "encode_utf8 (dedupe_base sample_date 1000 1 (Some 2) (asc ''velocity_spike'') (asc ''Spike''))
     = Some (asc ''1|2|velocity_spike|spike|0'')"
  "encode_utf8 (dedupe_base sample_date 4600 1 (Some 2) (asc ''velocity_spike'') (asc ''Spike''))
     = Some (asc ''1|2|velocity_spike|spike|0'')"
  "encode_utf8 (dedupe_base sample_date 4600 1 (Some 2) (asc ''velocity_spike'') (asc '' SPIKE''))
     = Some (asc ''1|2|velocity_spike|spike|0'')"
  unfolding dedupe_base_def lower_spike
  by (simp_all add: Let_def sample_date_def str_int_def str_nat.simps coalesce0_def asc_def
        utf8_cp_def)

text \<open>
  C9. For every call of \<open>upsert_alert_candidate\<close>, with \<open>base\<close> the string
  \<open>feed_id|feeder_id-or-0|alert_type|trimmed lowercased title|current UTC date\<close>: without
  a unique index that the conflict clause can use the call raises. When the call returns,
  the table is as before or has one more row, of status \<open>candidate\<close>, created \<open>now\<close>,
  whose dedupe key is the digest of the UTF-8 bytes of \<open>base\<close>. If the table held at most
  one row for every feed and key, it still does. If its rows were created no later than
  \<open>now\<close> and no two active rows created within 24 hours of each other shared feed, feeder,
  type and title, that still holds. And the row is inserted whenever \<open>base\<close> can be
  encoded, type and title are free of the code point 0, the index is there, and no row
  stands against it.
\<close>

theorem alert_dedupe:
  assumes "res = upsert_alert_candidate full_unique sha256_hex utc_date tbl now feed_id feeder_id
                   alert_type title content"
    and "base = str_int feed_id @ asc ''|''
                  @ str_int (case feeder_id of None \<Rightarrow> 0 | Some n \<Rightarrow> n) @ asc ''|''
                  @ alert_type @ asc ''|'' @ py_lower (py_strip title) @ asc ''|'' @ utc_date now"
  shows "(\<not> full_unique \<longrightarrow> (\<exists>e. res = Inl e))
    \<and> (\<forall>tbl'. res = Inr tbl' \<longrightarrow>
          (\<exists>bs. encode_utf8 base = Some bs
             \<and> (tbl' = tbl
                 \<or> tbl' = tbl @ [\<lparr>al_feed_id = feed_id, al_feeder_id = feeder_id,
                                  al_dedupe_key = sha256_hex bs, al_alert_type = alert_type,
                                  al_title = title, al_status = ''candidate'',
                                  al_created_at = now, al_content = content\<rparr>]))
          \<and> (no_two same_key tbl \<longrightarrow>
                no_two same_key tbl'
                \<and> (\<forall>f k. length (filter (\<lambda>r. al_feed_id r = f \<and> al_dedupe_key r = k) tbl') \<le> 1))
          \<and> (no_two same_alert_within_day tbl \<and> (\<forall>r \<in> set tbl. al_created_at r \<le> now) \<longrightarrow>
                no_two same_alert_within_day tbl'))
    \<and> (\<forall>bs. encode_utf8 base = Some bs \<and> full_unique \<and> 0 \<notin> set alert_type \<and> 0 \<notin> set title
          \<and> \<not> (\<exists>ac \<in> set tbl. al_feed_id ac = feed_id
                   \<and> (case al_feeder_id ac of None \<Rightarrow> 0 | Some n \<Rightarrow> n)
                       = (case feeder_id of None \<Rightarrow> 0 | Some n \<Rightarrow> n)
                   \<and> al_alert_type ac = alert_type \<and> al_title ac = title
                   \<and> al_created_at ac \<ge> now - 24 * 3600 \<and> active_status (al_status ac))
          \<and> \<not> (\<exists>ac \<in> set tbl. al_feed_id ac = feed_id \<and> al_dedupe_key ac = sha256_hex bs)
          \<longrightarrow> res = Inr (tbl @ [\<lparr>al_feed_id = feed_id, al_feeder_id = feeder_id,
                                 al_dedupe_key = sha256_hex bs, al_alert_type = alert_type,
                                 al_title = title, al_status = ''candidate'',
                                 al_created_at = now, al_content = content\<rparr>]))"
proof -
  have b: "base = dedupe_base utc_date now feed_id feeder_id alert_type title"
    unfolding assms(2) by (simp add: dedupe_base_def coalesce0_def)
  have 1: "\<not> full_unique \<longrightarrow> (\<exists>e. res = Inl e)"
    unfolding assms(1) by (rule impI) (rule upsert_alert_raises)
  have 2: "\<forall>tbl'. res = Inr tbl' \<longrightarrow>
          (\<exists>bs. encode_utf8 base = Some bs
             \<and> (tbl' = tbl
                 \<or> tbl' = tbl @ [\<lparr>al_feed_id = feed_id, al_feeder_id = feeder_id,
                                  al_dedupe_key = sha256_hex bs, al_alert_type = alert_type,
                                  al_title = title, al_status = ''candidate'',
                                  al_created_at = now, al_content = content\<rparr>]))
          \<and> (no_two same_key tbl \<longrightarrow>
                no_two same_key tbl'
                \<and> (\<forall>f k. length (filter (\<lambda>r. al_feed_id r = f \<and> al_dedupe_key r = k) tbl') \<le> 1))
          \<and> (no_two same_alert_within_day tbl \<and> (\<forall>r \<in> set tbl. al_created_at r \<le> now) \<longrightarrow>
                no_two same_alert_within_day tbl')"
  proof (intro allI impI)
    fix tbl'
    assume "res = Inr tbl'"
    then have r: "upsert_alert_candidate full_unique sha256_hex utc_date tbl now feed_id feeder_id
                   alert_type title content = Inr tbl'"
      using assms(1) by simp
    have x: "\<exists>bs. encode_utf8 base = Some bs
             \<and> (tbl' = tbl
                 \<or> tbl' = tbl @ [\<lparr>al_feed_id = feed_id, al_feeder_id = feeder_id,
                                  al_dedupe_key = sha256_hex bs, al_alert_type = alert_type,
                                  al_title = title, al_status = ''candidate'',
                                  al_created_at = now, al_content = content\<rparr>])"
    proof -
      obtain bs where e: "encode_utf8 (dedupe_base utc_date now feed_id feeder_id alert_type title) = Some bs"
        and d: "tbl' = tbl
                 \<or> tbl' = tbl @ [\<lparr>al_feed_id = feed_id, al_feeder_id = feeder_id,
                                  al_dedupe_key = sha256_hex bs, al_alert_type = alert_type,
                                  al_title = title, al_status = ''candidate'',
                                  al_created_at = now, al_content = content\<rparr>]
                   \<and> \<not> (\<exists>ac \<in> set tbl. al_feed_id ac = feed_id
                         \<and> coalesce0 (al_feeder_id ac) = coalesce0 feeder_id
                         \<and> al_alert_type ac = alert_type \<and> al_title ac = title
                         \<and> al_created_at ac \<ge> now - 24 * 3600 \<and> active_status (al_status ac))
                   \<and> \<not> (\<exists>ac \<in> set tbl. al_feed_id ac = feed_id \<and> al_dedupe_key ac = sha256_hex bs)"
        using upsert_alert_inr[OF r] by (elim conjE exE)
      have "tbl' = tbl
                 \<or> tbl' = tbl @ [\<lparr>al_feed_id = feed_id, al_feeder_id = feeder_id,
                                  al_dedupe_key = sha256_hex bs, al_alert_type = alert_type,
                                  al_title = title, al_status = ''candidate'',
                                  al_created_at = now, al_content = content\<rparr>]"
        using d by (elim disjE conjE) (rule disjI1, assumption, rule disjI2, assumption)
      then show ?thesis unfolding b using e by (intro exI[of _ bs] conjI)
    qed
    have y: "no_two same_key tbl \<longrightarrow>
                no_two same_key tbl'
                \<and> (\<forall>f k. length (filter (\<lambda>r. al_feed_id r = f \<and> al_dedupe_key r = k) tbl') \<le> 1)"
    proof (intro impI conjI allI)
      assume n: "no_two same_key tbl"
      show k: "no_two same_key tbl'" by (rule upsert_alert_keys[OF r n])
      fix f k'
      show "length (filter (\<lambda>r. al_feed_id r = f \<and> al_dedupe_key r = k') tbl') \<le> 1"
        by (rule no_two_count[OF k])
    qed
    have z: "no_two same_alert_within_day tbl \<and> (\<forall>r \<in> set tbl. al_created_at r \<le> now) \<longrightarrow>
                no_two same_alert_within_day tbl'"
    proof
      assume "no_two same_alert_within_day tbl \<and> (\<forall>r \<in> set tbl. al_created_at r \<le> now)"
      then show "no_two same_alert_within_day tbl'"
        by (elim conjE) (rule upsert_alert_recent[OF r])
    qed
    show "(\<exists>bs. encode_utf8 base = Some bs
             \<and> (tbl' = tbl
                 \<or> tbl' = tbl @ [\<lparr>al_feed_id = feed_id, al_feeder_id = feeder_id,
                                  al_dedupe_key = sha256_hex bs, al_alert_type = alert_type,
                                  al_title = title, al_status = ''candidate'',
                                  al_created_at = now, al_content = content\<rparr>]))
          \<and> (no_two same_key tbl \<longrightarrow>
                no_two same_key tbl'
                \<and> (\<forall>f k. length (filter (\<lambda>r. al_feed_id r = f \<and> al_dedupe_key r = k) tbl') \<le> 1))
          \<and> (no_two same_alert_within_day tbl \<and> (\<forall>r \<in> set tbl. al_created_at r \<le> now) \<longrightarrow>
                no_two same_alert_within_day tbl')"
      using x y z by (intro conjI)
  qed
  have 3: "\<forall>bs. encode_utf8 base = Some bs \<and> full_unique \<and> 0 \<notin> set alert_type \<and> 0 \<notin> set title
          \<and> \<not> (\<exists>ac \<in> set tbl. al_feed_id ac = feed_id
                   \<and> (case al_feeder_id ac of None \<Rightarrow> 0 | Some n \<Rightarrow> n)
                       = (case feeder_id of None \<Rightarrow> 0 | Some n \<Rightarrow> n)
                   \<and> al_alert_type ac = alert_type \<and> al_title ac = title
                   \<and> al_created_at ac \<ge> now - 24 * 3600 \<and> active_status (al_status ac))
          \<and> \<not> (\<exists>ac \<in> set tbl. al_feed_id ac = feed_id \<and> al_dedupe_key ac = sha256_hex bs)
          \<longrightarrow> res = Inr (tbl @ [\<lparr>al_feed_id = feed_id, al_feeder_id = feeder_id,
                                 al_dedupe_key = sha256_hex bs, al_alert_type = alert_type,
                                 al_title = title, al_status = ''candidate'',
                                 al_created_at = now, al_content = content\<rparr>])"
  proof (intro allI impI)
    fix bs
    assume a: "encode_utf8 base = Some bs \<and> full_unique \<and> 0 \<notin> set alert_type \<and> 0 \<notin> set title
          \<and> \<not> (\<exists>ac \<in> set tbl. al_feed_id ac = feed_id
                   \<and> (case al_feeder_id ac of None \<Rightarrow> 0 | Some n \<Rightarrow> n)
                       = (case feeder_id of None \<Rightarrow> 0 | Some n \<Rightarrow> n)
                   \<and> al_alert_type ac = alert_type \<and> al_title ac = title
                   \<and> al_created_at ac \<ge> now - 24 * 3600 \<and> active_status (al_status ac))
          \<and> \<not> (\<exists>ac \<in> set tbl. al_feed_id ac = feed_id \<and> al_dedupe_key ac = sha256_hex bs)"
    have "encode_utf8 base = Some bs" by (rule a[THEN conjunct1])
    then have e: "encode_utf8 (dedupe_base utc_date now feed_id feeder_id alert_type title) = Some bs"
      unfolding b .
    have n: "\<not> (\<exists>ac \<in> set tbl. al_feed_id ac = feed_id
                   \<and> coalesce0 (al_feeder_id ac) = coalesce0 feeder_id
                   \<and> al_alert_type ac = alert_type \<and> al_title ac = title
                   \<and> al_created_at ac \<ge> now - 24 * 3600 \<and> active_status (al_status ac))"
      unfolding coalesce0_def
      by (rule a[THEN conjunct2, THEN conjunct2, THEN conjunct2, THEN conjunct2, THEN conjunct1])
    show "res = Inr (tbl @ [\<lparr>al_feed_id = feed_id, al_feeder_id = feeder_id,
                                 al_dedupe_key = sha256_hex bs, al_alert_type = alert_type,
                                 al_title = title, al_status = ''candidate'',
                                 al_created_at = now, al_content = content\<rparr>])"
    proof -
      have fu: "full_unique" and t0: "0 \<notin> set alert_type" and t1: "0 \<notin> set title"
        and nk: "\<not> (\<exists>ac \<in> set tbl. al_feed_id ac = feed_id \<and> al_dedupe_key ac = sha256_hex bs)"
        by (rule a[THEN conjunct2, THEN conjunct1],
            rule a[THEN conjunct2, THEN conjunct2, THEN conjunct1],
            rule a[THEN conjunct2, THEN conjunct2, THEN conjunct2, THEN conjunct1],
            rule a[THEN conjunct2, THEN conjunct2, THEN conjunct2, THEN conjunct2, THEN conjunct2])
      show ?thesis unfolding assms(1) by (rule upsert_alert_inserts[where sha = sha256_hex and bs = bs, OF e fu t0 t1 n nk])
    qed
  qed
  show ?thesis using 1 2 3 by (intro conjI)
qed

theorem alert_dedupe_witness:
  "upsert_alert_candidate True sample_digest sample_date [] 1000 1 (Some 2)
      (asc ''velocity_spike'') (asc ''Spike'') ()
     = Inr [\<lparr>al_feed_id = 1, al_feeder_id = Some 2,
             al_dedupe_key = asc ''#1|2|velocity_spike|spike|0'',
             al_alert_type = asc ''velocity_spike'', al_title = asc ''Spike'',
             al_status = ''candidate'', al_created_at = 1000, al_content = ()\<rparr>]
   \<and> upsert_alert_candidate True sample_digest sample_date
        [\<lparr>al_feed_id = 1, al_feeder_id = Some 2,
          al_dedupe_key = asc ''#1|2|velocity_spike|spike|0'',
          al_alert_type = asc ''velocity_spike'', al_title = asc ''Spike'',
          al_status = ''candidate'', al_created_at = 1000, al_content = ()\<rparr>]
        4600 1 (Some 2) (asc ''velocity_spike'') (asc ''Spike'') ()
     = Inr [\<lparr>al_feed_id = 1, al_feeder_id = Some 2,
             al_dedupe_key = asc ''#1|2|velocity_spike|spike|0'',
             al_alert_type = asc ''velocity_spike'', al_title = asc ''Spike'',
             al_status = ''candidate'', al_created_at = 1000, al_content = ()\<rparr>]
   \<and> upsert_alert_candidate True sample_digest sample_date
        [\<lparr>al_feed_id = 1, al_feeder_id = Some 2,
          al_dedupe_key = asc ''#1|2|velocity_spike|spike|0'',
          al_alert_type = asc ''velocity_spike'', al_title = asc ''Spike'',
          al_status = ''candidate'', al_created_at = 1000, al_content = ()\<rparr>]
        4600 1 (Some 2) (asc ''velocity_spike'') (asc '' SPIKE'') ()
     = Inr [\<lparr>al_feed_id = 1, al_feeder_id = Some 2,
             al_dedupe_key = asc ''#1|2|velocity_spike|spike|0'',
             al_alert_type = asc ''velocity_spike'', al_title = asc ''Spike'',
             al_status = ''candidate'', al_created_at = 1000, al_content = ()\<rparr>]
   \<and> (\<exists>e. upsert_alert_candidate False sample_digest sample_date [] 1000 1 (Some 2)
              (asc ''velocity_spike'') (asc ''Spike'') () = Inl e)"
proof -
  let ?row = "\<lparr>al_feed_id = 1, al_feeder_id = Some 2,
             al_dedupe_key = asc ''#1|2|velocity_spike|spike|0'',
             al_alert_type = asc ''velocity_spike'', al_title = asc ''Spike'',
             al_status = ''candidate'', al_created_at = 1000, al_content = ()\<rparr>"
  have k: "sample_digest (asc ''1|2|velocity_spike|spike|0'') = asc ''#1|2|velocity_spike|spike|0''"
    by (simp add: sample_digest_def asc_def)
  have z: "0 \<notin> set (asc ''velocity_spike'')" "0 \<notin> set (asc ''Spike'')" "0 \<notin> set (asc '' SPIKE'')"
    by (simp_all add: asc_def)
  have ne: "asc '' SPIKE'' \<noteq> asc ''Spike''" by (simp add: asc_def)
  have 1: "upsert_alert_candidate True sample_digest sample_date [] 1000 1 (Some 2)
      (asc ''velocity_spike'') (asc ''Spike'') () = Inr [?row]"
    unfolding upsert_alert_candidate_def sample_base using z by (simp add: k)
  have 2: "upsert_alert_candidate True sample_digest sample_date [?row]
        4600 1 (Some 2) (asc ''velocity_spike'') (asc ''Spike'') () = Inr [?row]"
    unfolding upsert_alert_candidate_def sample_base using z
    by (simp add: coalesce0_def active_status_def)
  have 3: "upsert_alert_candidate True sample_digest sample_date [?row]
        4600 1 (Some 2) (asc ''velocity_spike'') (asc '' SPIKE'') () = Inr [?row]"
    unfolding upsert_alert_candidate_def sample_base using z ne by (simp add: k)
  have 4: "\<exists>e. upsert_alert_candidate False sample_digest sample_date [] 1000 1 (Some 2)
              (asc ''velocity_spike'') (asc ''Spike'') () = Inl e"
    using alert_dedupe[OF refl refl, of False sample_digest sample_date "[]" 1000 1 "Some 2"
        "asc ''velocity_spike''" "asc ''Spike''" "()", THEN conjunct1]
    by simp
  show ?thesis using 1 2 3 4 by (intro conjI)
qed

end
